theory Spec2Isabelle
  imports Main "HOL-Library.Sublist"
begin

section \<open>Strings\<close>

text \<open>
  A Python \<open>str\<close> is modelled as a HOL \<open>string\<close>, one \<open>char\<close> per code point, for the code
  points below 256. On that range the regular-expression class \<open>\d\<close> of \<open>re\<close> is exactly
  \<open>0\<close>..\<open>9\<close>, so \<open>\D\<close> is its complement.
\<close>

definition is_digit :: "char \<Rightarrow> bool" where
  "is_digit c \<longleftrightarrow> 48 \<le> (of_char c :: nat) \<and> (of_char c :: nat) \<le> 57"

text \<open>\<open>s.startswith(p)\<close>\<close>

definition startswith :: "string \<Rightarrow> string \<Rightarrow> bool" where
  "startswith s p \<longleftrightarrow> prefix p s"

section \<open>Field normalizer\<close>

subsection \<open>Mobile numbers\<close>

text \<open>
  \<^verbatim>\<open>
  def normalize_saudi_mobile(mobile: str) -> tuple[str, bool]:
      if not mobile: return ("", False)
      clean = re.sub(r"\D", "", str(mobile))
      if clean.startswith("00966") and len(clean) == 14: clean = clean[2:]
      if clean.startswith("9665") and len(clean) == 12: return (f"+{clean}", True)
      if clean.startswith("05")   and len(clean) == 10: return (f"+966{clean[1:]}", True)
      if clean.startswith("5")    and len(clean) == 9:  return (f"+966{clean}", True)
      if clean.startswith("966")  and len(clean) == 12: return (f"+{clean}", True)
      if clean.startswith("+966") and len(clean) == 13: return (clean, True)
      return (mobile, False)
  \<close>
  The function is the same in \<open>a.py\<close> and \<open>app.py\<close>. \<open>re.sub(r"\D", "", s)\<close> deletes every
  non-digit, which is \<open>filter is_digit\<close>; a slice \<open>clean[k:]\<close> is \<open>drop k\<close>.
\<close>

definition normalize_saudi_mobile :: "string \<Rightarrow> string \<times> bool" where
  "normalize_saudi_mobile mobile =
    (if mobile = [] then ([], False)
     else
       let clean0 = filter is_digit mobile;
           clean = (if startswith clean0 ''00966'' \<and> length clean0 = 14
                    then drop 2 clean0 else clean0)
       in if startswith clean ''9665'' \<and> length clean = 12 then (''+'' @ clean, True)
          else if startswith clean ''05'' \<and> length clean = 10 then (''+966'' @ drop 1 clean, True)
          else if startswith clean ''5'' \<and> length clean = 9 then (''+966'' @ clean, True)
          else if startswith clean ''966'' \<and> length clean = 12 then (''+'' @ clean, True)
          else if startswith clean ''+966'' \<and> length clean = 13 then (clean, True)
          else (mobile, False))"

text \<open>
  The rewrite rules as the specification words them (section 4.1): rules 1 to 5 are
  conditions on the digit-stripped string, rule 6 is a condition on the original string.
  They are used to state the properties of \<^const>\<open>normalize_saudi_mobile\<close> and are not
  part of its definition.
\<close>

definition rule1 :: "string \<Rightarrow> bool" where
  "rule1 c \<longleftrightarrow> startswith c ''00966'' \<and> length c = 14"

definition rule2 :: "string \<Rightarrow> bool" where
  "rule2 c \<longleftrightarrow> startswith c ''9665'' \<and> length c = 12"

definition rule3 :: "string \<Rightarrow> bool" where
  "rule3 c \<longleftrightarrow> startswith c ''05'' \<and> length c = 10"

definition rule4 :: "string \<Rightarrow> bool" where
  "rule4 c \<longleftrightarrow> startswith c ''5'' \<and> length c = 9"

definition rule5 :: "string \<Rightarrow> bool" where
  "rule5 c \<longleftrightarrow> startswith c ''966'' \<and> length c = 12"

definition rule6 :: "string \<Rightarrow> bool" where
  "rule6 raw \<longleftrightarrow> startswith raw ''+966'' \<and> length raw = 13"

text \<open>Rule 1 rewrites the stripped string and hands it on to the later rules.\<close>

definition rule1_rewrite :: "string \<Rightarrow> string" where
  "rule1_rewrite c = (if rule1 c then drop 2 c else c)"

text \<open>The raw input matches one of the rules 1 to 5 after stripping.\<close>

definition rules_1_to_5 :: "string \<Rightarrow> bool" where
  "rules_1_to_5 raw \<longleftrightarrow>
     (let c = filter is_digit raw in rule1 c \<or> rule2 c \<or> rule3 c \<or> rule4 c \<or> rule5 c)"

text \<open>The shape \<open>+966XXXXXXXXX\<close>: thirteen characters, \<open>+966\<close> and then nine digits.\<close>

definition normalized_shape :: "string \<Rightarrow> bool" where
  "normalized_shape s \<longleftrightarrow>
     length s = 13 \<and> take 4 s = ''+966'' \<and> list_all is_digit (drop 4 s)"


subsection \<open>E-mail addresses\<close>

text \<open>
  \<open>str.strip()\<close> removes leading and trailing whitespace. For the code points below 256
  Python's whitespace is: tab to carriage return (9-13), the separators 28-31, the space,
  NEL (133) and the no-break space (160).
\<close>

definition isspace :: "char \<Rightarrow> bool" where
  "isspace c \<longleftrightarrow> (let n = (of_char c :: nat) in
      (9 \<le> n \<and> n \<le> 13) \<or> (28 \<le> n \<and> n \<le> 32) \<or> n = 133 \<or> n = 160)"

definition strip :: "string \<Rightarrow> string" where
  "strip s = rev (dropWhile isspace (rev (dropWhile isspace s)))"

text \<open>
  \<open>str.lower()\<close>: below 256 the upper-case letters are \<open>A\<close>-\<open>Z\<close> and the Latin-1 letters
  192-214 and 216-222; each has its lower-case form 32 code points later.
\<close>

definition lower_char :: "char \<Rightarrow> char" where
  "lower_char c = (let n = (of_char c :: nat) in
      if (65 \<le> n \<and> n \<le> 90) \<or> (192 \<le> n \<and> n \<le> 214) \<or> (216 \<le> n \<and> n \<le> 222)
      then char_of (n + 32) else c)"

definition lower :: "string \<Rightarrow> string" where
  "lower s = map lower_char s"

text \<open>
  \<^verbatim>\<open>
  def normalize_email(email: str) -> tuple[str, bool]:
      if not email: return ("", False)
      e = email.strip().lower()
      return (e, "@" in e and e.count("@") == 1)
  \<close>
\<close>

definition normalize_email :: "string \<Rightarrow> string \<times> bool" where
  "normalize_email email =
     (if email = [] then ([], False)
      else let e = lower (strip email)
           in (e, CHR ''@'' \<in> set e \<and> count_list e CHR ''@'' = 1))"


section \<open>vCard serializer\<close>

definition nl :: string where
  "nl = [CHR 0x0A]"

text \<open>\<open>sep.join(xs)\<close>\<close>

fun join :: "string \<Rightarrow> string list \<Rightarrow> string" where
  "join sep [] = []"
| "join sep [x] = x"
| "join sep (x # y # ys) = x @ sep @ join sep (y # ys)"

text \<open>
  In \<open>a.py\<close> and \<open>app.py\<close> a person is a dict from field names to strings, and every field
  is read as \<open>p.get(k, "") or ""\<close>: a missing key reads as the empty string.
\<close>

type_synonym person = "string \<rightharpoonup> string"

definition get_str :: "person \<Rightarrow> string \<Rightarrow> string" where
  "get_str p k = (case p k of None \<Rightarrow> [] | Some v \<Rightarrow> v)"

text \<open>
  \<open>vcard_from_person\<close> of \<open>a.py\<close> and \<open>app.py\<close>: one f-string with the line breaks written
  in it.
\<close>

definition vcard_from_person :: "person \<Rightarrow> string" where
  "vcard_from_person p =
    (let first = get_str p ''First_Name'';
         last  = get_str p ''Last_Name'';
         org   = get_str p ''Company'';
         title = get_str p ''Role'';
         tel   = get_str p ''Mobile'';
         email = get_str p ''Email'';
         url   = get_str p ''Website'';
         loc   = get_str p ''Location'';
         notes = get_str p ''Notes''
     in ''BEGIN:VCARD'' @ nl @
        ''VERSION:3.0'' @ nl @
        ''N:'' @ last @ '';'' @ first @ nl @
        ''FN:'' @ first @ '' '' @ last @ nl @
        ''ORG:'' @ org @ nl @
        ''TITLE:'' @ title @ nl @
        ''TEL;TYPE=CELL:'' @ tel @ nl @
        ''EMAIL:'' @ email @ nl @
        ''URL:'' @ url @ nl @
        ''ADR;TYPE=WORK:'' @ loc @ nl @
        ''NOTE:'' @ notes @ nl @
        ''END:VCARD'')"

text \<open>
  In \<open>app2.py\<close> a person is a dataclass, and the serializer collects a list of lines:
  \<^verbatim>\<open>
  def vcard_from_person(p: Person) -> str:
      lines = ["BEGIN:VCARD", "VERSION:3.0",
               f"N:{p.LastName};{p.FirstName};;;", f"FN:{p.full_name_en}",
               f"TITLE:{p.Role}", f"ORG:{p.Company}"]
      if p.Email:   lines.append(f"EMAIL;TYPE=INTERNET:{p.Email}")
      if p.Mobile:  lines.append(f"TEL;TYPE=CELL:{p.Mobile}")
      if p.Phone:   lines.append(f"TEL;TYPE=WORK,VOICE:{p.Phone}")
      if p.Website: lines.append(f"URL:{p.Website}")
      if p.Address: lines.append(f"ADR;TYPE=WORK:;;{p.Address};;;;")
      lines.append("END:VCARD")
      return "\n".join(lines)
  \<close>
\<close>

record Person =
  FirstName :: string
  LastName :: string
  Arabic_Name :: string
  Role :: string
  Email :: string
  Phone :: string
  Mobile :: string
  Company :: string
  Department :: string
  Website :: string
  LinkedIn :: string
  Address :: string

definition full_name_en :: "Person \<Rightarrow> string" where
  "full_name_en p = strip (FirstName p @ '' '' @ LastName p)"

definition vcard_from_person_app2 :: "Person \<Rightarrow> string" where
  "vcard_from_person_app2 p =
    (let lines0 = [''BEGIN:VCARD'',
                   ''VERSION:3.0'',
                   ''N:'' @ LastName p @ '';'' @ FirstName p @ '';;;'',
                   ''FN:'' @ full_name_en p,
                   ''TITLE:'' @ Role p,
                   ''ORG:'' @ Company p];
         lines1 = (if Email p \<noteq> [] then lines0 @ [''EMAIL;TYPE=INTERNET:'' @ Email p]
                   else lines0);
         lines2 = (if Mobile p \<noteq> [] then lines1 @ [''TEL;TYPE=CELL:'' @ Mobile p]
                   else lines1);
         lines3 = (if Phone p \<noteq> [] then lines2 @ [''TEL;TYPE=WORK,VOICE:'' @ Phone p]
                   else lines2);
         lines4 = (if Website p \<noteq> [] then lines3 @ [''URL:'' @ Website p]
                   else lines3);
         lines5 = (if Address p \<noteq> [] then lines4 @ [''ADR;TYPE=WORK:;;'' @ Address p @ '';;;;'']
                   else lines4)
     in join nl (lines5 @ [''END:VCARD'']))"

text \<open>A person of \<open>app2.py\<close> with every field empty, and the reading of an optional line.\<close>

definition blank_Person :: Person where
  "blank_Person = \<lparr>FirstName = [], LastName = [], Arabic_Name = [], Role = [], Email = [],
     Phone = [], Mobile = [], Company = [], Department = [], Website = [], LinkedIn = [],
     Address = []\<rparr>"

definition optional_line :: "string \<Rightarrow> string \<Rightarrow> string list" where
  "optional_line label v = (if v = [] then [] else [label @ v])"


section \<open>Root prefix of the archive\<close>

text \<open>The character class \<open>[A-Za-z0-9._-]\<close>.\<close>

definition is_safe :: "char \<Rightarrow> bool" where
  "is_safe c \<longleftrightarrow>
     (let n = (of_char c :: nat)
      in (65 \<le> n \<and> n \<le> 90) \<or> (97 \<le> n \<and> n \<le> 122) \<or> (48 \<le> n \<and> n \<le> 57))
     \<or> c = CHR ''.'' \<or> c = CHR ''_'' \<or> c = CHR ''-''"

text \<open>
  \<open>re.sub(r"[^A-Za-z0-9._-]+", "_", s)\<close> scans from the left; at a character outside the
  class the greedy \<open>+\<close> takes the whole run of such characters, and one underscore is
  written for it.
\<close>

function re_sub_unsafe :: "string \<Rightarrow> string" where
  "re_sub_unsafe [] = []"
| "re_sub_unsafe (c # cs) =
     (if is_safe c then c # re_sub_unsafe cs
      else CHR ''_'' # re_sub_unsafe (dropWhile (\<lambda>x. \<not> is_safe x) cs))"
  by pat_completeness auto
termination
  by (relation "measure length") (auto simp: length_dropWhile_le le_imp_less_Suc)

text \<open>\<open>s.strip(cs)\<close> removes the leading and trailing characters that occur in \<open>cs\<close>.\<close>

definition strip_chars :: "string \<Rightarrow> string \<Rightarrow> string" where
  "strip_chars cs s =
     rev (dropWhile (\<lambda>c. c \<in> set cs) (rev (dropWhile (\<lambda>c. c \<in> set cs) s)))"

text \<open>\<open>re.sub(...).strip("_") or dflt\<close>, the expression both handlers share.\<close>

definition sanitize_root :: "string \<Rightarrow> string \<Rightarrow> string" where
  "sanitize_root name dflt =
     (let s = strip_chars ''_'' (re_sub_unsafe name) in if s = [] then dflt else s)"

text \<open>
  \<open>app.py\<close>: \<open>safe_root = re.sub(..., custom_zip_prefix).strip("_") or "Batch_Outputs"\<close>.
\<close>

definition safe_root_app :: "string \<Rightarrow> string" where
  "safe_root_app custom_zip_prefix = sanitize_root custom_zip_prefix ''Batch_Outputs''"

text \<open>
  \<open>a.py\<close>: \<open>safe_root = re.sub(..., (batch_root_name or default_batch_name)).strip("_")
  or default_batch_name\<close>, where the default name ends in the date of the day.
\<close>

definition safe_root_a :: "string \<Rightarrow> string \<Rightarrow> string" where
  "safe_root_a batch_root_name default_batch_name =
     sanitize_root (if batch_root_name = [] then default_batch_name else batch_root_name)
       default_batch_name"


section \<open>Batch classification\<close>

text \<open>
  The batch handlers of \<open>a.py\<close> and \<open>app.py\<close> work on a pandas table \<open>mapped\<close> with one
  column per canonical field. Reading the spreadsheet and resolving the column headers
  come before and are not modelled. \<open>app.py\<close> replaces every blank cell by the empty string
  (\<open>fillna("")\<close>) and its rows are records of strings; \<open>a.py\<close> does not, and its cells are
  modelled further down. A cell that holds a number is not modelled.
\<close>

datatype py_error = TypeError | ValueError | AttributeError

record row =
  First_Name :: string
  Last_Name :: string
  Arabic_Name :: string
  Department :: string
  Role :: string
  Company :: string
  Mobile :: string
  Email :: string
  Website :: string
  Location :: string
  Google_Maps_Link :: string
  Notes :: string

text \<open>The four columns the handlers add.\<close>

record mapped_row = row +
  Mobile_Normalized :: string
  Mobile_Valid :: bool
  Email_Normalized :: string
  Email_Valid :: bool

definition normalize_row :: "row \<Rightarrow> mapped_row" where
  "normalize_row r =
     (let (mn, mok) = normalize_saudi_mobile (Mobile r);
          (en, eok) = normalize_email (Email r)
      in row.extend r (mapped_row.fields mn mok en eok))"

subsection \<open>The pandas operations the handlers call\<close>

text \<open>
  \<open>Series.duplicated(self, keep='first')\<close> marks the repeated values of a column: with
  \<open>keep='first'\<close> every occurrence but the first, with \<open>keep='last'\<close> every occurrence but
  the last, with \<open>keep=False\<close> every occurrence of a value that occurs at least twice.
\<close>

datatype keep = KeepFirst | KeepLast | KeepFalse

fun seen_before :: "'a list \<Rightarrow> 'a list \<Rightarrow> bool list" where
  "seen_before seen [] = []"
| "seen_before seen (x # xs) = (x \<in> set seen) # seen_before (x # seen) xs"

definition duplicated :: "keep \<Rightarrow> 'a list \<Rightarrow> bool list" where
  "duplicated k col =
     (case k of
        KeepFirst \<Rightarrow> seen_before [] col
      | KeepLast \<Rightarrow> rev (seen_before [] (rev col))
      | KeepFalse \<Rightarrow> map (\<lambda>v. 2 \<le> count_list col v) col)"

text \<open>
  A call \<open>series.duplicated(kw=v)\<close> with one keyword argument: the method has the single
  parameter \<open>keep\<close> and takes no other keyword, so Python raises \<open>TypeError\<close> for any
  other name.
\<close>

definition call_duplicated :: "string \<Rightarrow> keep \<Rightarrow> 'a list \<Rightarrow> py_error + bool list" where
  "call_duplicated kw v col = (if kw = ''keep'' then Inr (duplicated v col) else Inl TypeError)"

text \<open>\<open>hasattr(series, name)\<close>, for the attributes of a Series that the handlers use.\<close>

definition Series_hasattr :: "string \<Rightarrow> bool" where
  "Series_hasattr name \<longleftrightarrow> name \<in> set [''duplicated'', ''ne'', ''apply'', ''map'', ''tolist'']"

text \<open>
  A table read from a spreadsheet has the index \<open>0, 1, \<dots>\<close>; a table is the list of its
  rows, each with its index label. \<open>frame[flags]\<close> keeps the rows whose flag is true, with
  their labels; \<open>frame.index\<close> is the list of labels; \<open>Index.union\<close> is the sorted union.
\<close>

type_synonym frame = "(nat \<times> mapped_row) list"

definition select :: "(nat \<times> 'a) list \<Rightarrow> bool list \<Rightarrow> (nat \<times> 'a) list" where
  "select fr flags = map fst (filter snd (zip fr flags))"

definition index :: "(nat \<times> 'a) list \<Rightarrow> nat list" where
  "index fr = map fst fr"

definition index_union :: "nat list \<Rightarrow> nat list \<Rightarrow> nat list" where
  "index_union a b = sort (remdups (a @ b))"

subsection \<open>The classification of both handlers\<close>

text \<open>The values the handlers keep: the counts and the two excluded partitions.\<close>

record batch =
  total :: nat
  clean_count :: int
  invalid_count :: nat
  duplicate_count :: nat
  duplicates :: frame
  invalids :: frame

text \<open>\<open>app.py\<close> also keeps the table of clean rows.\<close>

record batch_app = batch +
  clean_df :: frame

text \<open>
  Both handlers: \<open>invalids = mapped[~mapped["Email_Valid"] | ~mapped["Mobile_Valid"]]\<close>.
\<close>

definition invalid_rows :: "frame \<Rightarrow> frame" where
  "invalid_rows mapped =
     select mapped (map (\<lambda>(i, r). \<not> Email_Valid r \<or> \<not> Mobile_Valid r) mapped)"

text \<open>
  \<open>app.py\<close>:
  \<^verbatim>\<open>
  mapped["Mobile_Normalized"], mapped["Mobile_Valid"] = zip(*mapped["Mobile"].map(normalize_saudi_mobile))
  mapped["Email_Normalized"],  mapped["Email_Valid"]  = zip(*mapped["Email"].map(normalize_email))
  total = len(mapped)
  dup_mobile = mapped["Mobile_Normalized"].duplicated(keep=False)
  dup_email  = mapped["Email_Normalized"].duplicated(keep=False)
  duplicates = mapped[dup_mobile | dup_email]
  invalids   = mapped[~mapped["Email_Valid"] | ~mapped["Mobile_Valid"]]
  clean_df   = mapped[~mapped.index.isin(duplicates.index) & ~mapped.index.isin(invalids.index)]
  clean_count     = len(clean_df)
  invalid_count   = len(invalids)
  duplicate_count = len(duplicates)
  \<close>
  For a table without rows \<open>zip(*...)\<close> yields nothing and the unpacking into two names
  raises \<open>ValueError\<close>.
\<close>

definition duplicates_app :: "frame \<Rightarrow> frame" where
  "duplicates_app mapped =
     (let dup_mobile = duplicated KeepFalse (map (\<lambda>(i, r). Mobile_Normalized r) mapped);
          dup_email = duplicated KeepFalse (map (\<lambda>(i, r). Email_Normalized r) mapped)
      in select mapped (map2 (\<or>) dup_mobile dup_email))"

definition clean_rows_app :: "frame \<Rightarrow> frame \<Rightarrow> frame \<Rightarrow> frame" where
  "clean_rows_app mapped dups invs =
     select mapped
       (map2 (\<and>) (map (\<lambda>(i, r). i \<notin> set (index dups)) mapped)
                  (map (\<lambda>(i, r). i \<notin> set (index invs)) mapped))"

definition classify_app :: "row list \<Rightarrow> py_error + batch_app" where
  "classify_app df =
    (if df = [] then Inl ValueError
     else
       let mapped = enumerate 0 (map normalize_row df);
           dups = duplicates_app mapped;
           invs = invalid_rows mapped;
           clean = clean_rows_app mapped dups invs
       in Inr \<lparr>total = length mapped, clean_count = int (length clean),
               invalid_count = length invs, duplicate_count = length dups,
               duplicates = dups, invalids = invs, clean_df = clean\<rparr>)"

text \<open>
  \<open>a.py\<close>:
  \<^verbatim>\<open>
  dup_email  = mapped["Email_Normalized"].duplicated(Keep=False) if hasattr(mapped["Email_Normalized"], 'duplicated') else mapped["Email_Normalized"].duplicated(keep=False)
  dup_email  = dup_email & mapped["Email_Normalized"].ne("")
  dup_mobile = mapped["Mobile_Normalized"].duplicated(keep=False) & mapped["Mobile_Normalized"].ne("")
  duplicates = mapped[dup_email | dup_mobile].copy()
  invalids   = mapped[(~mapped["Email_Valid"]) | (~mapped["Mobile_Valid"])].copy()
  total=len(mapped); invalid_count=len(invalids); duplicate_count=len(duplicates)
  clean_count = total - len(invalids.index.union(duplicates.index))
  \<close>
  The first line is \<open>dup_email_expr\<close>. What follows it is written as a function of the two
  results of \<open>duplicated\<close>, so that it can be stated apart from the first line.
\<close>

definition dup_email_expr :: "string list \<Rightarrow> py_error + bool list" where
  "dup_email_expr col =
     (if Series_hasattr ''duplicated'' then call_duplicated ''Keep'' KeepFalse col
      else call_duplicated ''keep'' KeepFalse col)"

definition duplicates_a :: "frame \<Rightarrow> bool list \<Rightarrow> bool list \<Rightarrow> frame" where
  "duplicates_a mapped dup_email0 dup_mobile0 =
     (let dup_email = map2 (\<and>) dup_email0 (map (\<lambda>(i, r). Email_Normalized r \<noteq> []) mapped);
          dup_mobile = map2 (\<and>) dup_mobile0 (map (\<lambda>(i, r). Mobile_Normalized r \<noteq> []) mapped)
      in select mapped (map2 (\<or>) dup_email dup_mobile))"

definition summary_a :: "frame \<Rightarrow> bool list \<Rightarrow> bool list \<Rightarrow> batch" where
  "summary_a mapped dup_email0 dup_mobile0 =
    (let dups = duplicates_a mapped dup_email0 dup_mobile0;
         invs = invalid_rows mapped;
         n = length mapped
     in \<lparr>total = n,
         clean_count = int n - int (length (index_union (index invs) (index dups))),
         invalid_count = length invs, duplicate_count = length dups,
         duplicates = dups, invalids = invs\<rparr>)"

text \<open>
  \<open>a.py\<close> reads the spreadsheet without \<open>fillna\<close>: a blank cell is the float \<open>NaN\<close>, which
  is true as a condition, prints as \<open>nan\<close> and has no method \<open>strip\<close>. A row of its table
  \<open>mapped\<close> gives a cell for each of the twelve column names.
\<close>

datatype cell = Str string | NaN

type_synonym cells = "string \<Rightarrow> cell"

text \<open>\<open>bool(x)\<close> and \<open>str(x)\<close>\<close>

definition truthy :: "cell \<Rightarrow> bool" where
  "truthy c = (case c of Str s \<Rightarrow> s \<noteq> [] | NaN \<Rightarrow> True)"

definition text_of :: "cell \<Rightarrow> string" where
  "text_of c = (case c of Str s \<Rightarrow> s | NaN \<Rightarrow> ''nan'')"

text \<open>
  \<^verbatim>\<open>
  def normalize_name(name: str) -> str:
      return name.strip().capitalize() if name else ""
  \<close>
  \<open>str.capitalize\<close> can leave the code points below 256 (it does for 181 and 255), so it
  is a parameter of the model.
\<close>

definition normalize_name :: "(string \<Rightarrow> string) \<Rightarrow> cell \<Rightarrow> py_error + string" where
  "normalize_name capitalize name =
     (if truthy name
      then (case name of Str s \<Rightarrow> Inr (capitalize (strip s)) | NaN \<Rightarrow> Inl AttributeError)
      else Inr [])"

text \<open>
  The two contact normalizers on a cell that need not be a string: \<open>normalize_email\<close>
  calls \<open>email.strip()\<close>; \<open>normalize_saudi_mobile\<close> works on \<open>str(mobile)\<close> and returns the
  cell itself when no rule matches.
\<close>

definition normalize_email_cell :: "cell \<Rightarrow> py_error + string \<times> bool" where
  "normalize_email_cell email =
     (if \<not> truthy email then Inr ([], False)
      else (case email of Str s \<Rightarrow> Inr (normalize_email s) | NaN \<Rightarrow> Inl AttributeError))"

definition normalize_saudi_mobile_cell :: "cell \<Rightarrow> cell \<times> bool" where
  "normalize_saudi_mobile_cell mobile =
     (if \<not> truthy mobile then (Str [], False)
      else let (n, ok) = normalize_saudi_mobile (text_of mobile)
           in if ok then (Str n, True) else (mobile, False))"

text \<open>
  \<open>Series.apply(f)\<close> and the loops \<open>for v in column.tolist()\<close> call \<open>f\<close> on the cells in
  order; the first exception ends the handler.
\<close>

fun apply_col :: "('a \<Rightarrow> py_error + 'b) \<Rightarrow> 'a list \<Rightarrow> py_error + 'b list" where
  "apply_col f [] = Inr []"
| "apply_col f (x # xs) =
     (case f x of
        Inl e \<Rightarrow> Inl e
      | Inr y \<Rightarrow> (case apply_col f xs of Inl e \<Rightarrow> Inl e | Inr ys \<Rightarrow> Inr (y # ys)))"

text \<open>
  A row of \<open>mapped\<close> after the normalization, written with the text of each cell: the two
  names are the capitalized ones, and the four new columns are added.
\<close>

definition mapped_row_a ::
  "cells \<times> string \<times> string \<times> (string \<times> bool) \<times> (cell \<times> bool) \<Rightarrow> mapped_row" where
  "mapped_row_a x =
     (case x of (r, first_name, last_name, (em_n, em_ok), (mb_n, mb_ok)) \<Rightarrow>
        \<lparr>First_Name = first_name, Last_Name = last_name,
         Arabic_Name = text_of (r ''Arabic_Name''),
         Department = text_of (r ''Department''),
         Role = text_of (r ''Role''),
         Company = text_of (r ''Company''),
         Mobile = text_of (r ''Mobile''),
         Email = text_of (r ''Email''),
         Website = text_of (r ''Website''),
         Location = text_of (r ''Location''),
         Google_Maps_Link = text_of (r ''Google_Maps_Link''),
         Notes = text_of (r ''Notes''),
         Mobile_Normalized = text_of mb_n, Mobile_Valid = mb_ok,
         Email_Normalized = em_n, Email_Valid = em_ok\<rparr>)"

text \<open>
  The handler of \<open>a.py\<close> from the table \<open>mapped\<close> to the counts:
  \<^verbatim>\<open>
  mapped["First_Name"] = mapped["First_Name"].apply(normalize_name)
  mapped["Last_Name"]  = mapped["Last_Name"].apply(normalize_name)
  em_n, em_ok = [], []
  for v in mapped["Email"].tolist():
      n, ok = normalize_email(v); em_n.append(n); em_ok.append(ok)
  mapped["Email_Normalized"], mapped["Email_Valid"] = em_n, em_ok
  mb_n, mb_ok = [], []
  for v in mapped["Mobile"].tolist():
      n, ok = normalize_saudi_mobile(v); mb_n.append(n); mb_ok.append(ok)
  mapped["Mobile_Normalized"], mapped["Mobile_Valid"] = mb_n, mb_ok
  \<close>
  and then the lines above, from \<open>dup_email\<close> on.
\<close>

definition classify_a :: "(string \<Rightarrow> string) \<Rightarrow> cells list \<Rightarrow> py_error + batch" where
  "classify_a capitalize rows =
    (case apply_col (normalize_name capitalize) (map (\<lambda>r. r ''First_Name'') rows) of
       Inl e \<Rightarrow> Inl e
     | Inr first_names \<Rightarrow>
    (case apply_col (normalize_name capitalize) (map (\<lambda>r. r ''Last_Name'') rows) of
       Inl e \<Rightarrow> Inl e
     | Inr last_names \<Rightarrow>
    (case apply_col normalize_email_cell (map (\<lambda>r. r ''Email'') rows) of
       Inl e \<Rightarrow> Inl e
     | Inr em \<Rightarrow>
       let mb = map normalize_saudi_mobile_cell (map (\<lambda>r. r ''Mobile'') rows);
           mapped = enumerate 0 (map mapped_row_a (zip rows (zip first_names (zip last_names (zip em mb)))))
       in (case dup_email_expr (map fst em) of
             Inl e \<Rightarrow> Inl e
           | Inr dup_email0 \<Rightarrow>
               (case call_duplicated ''keep'' KeepFalse (map fst mb) of
                  Inl e \<Rightarrow> Inl e
                | Inr dup_mobile0 \<Rightarrow> Inr (summary_a mapped dup_email0 dup_mobile0))))))"

text \<open>
  The duplicate partition as the specification words it (section 4.3): the rows whose
  normalized e-mail is not empty and occurs at least twice in its column, or whose
  normalized mobile is not empty and occurs at least twice in its column.
\<close>

definition spec_duplicate_rows :: "frame \<Rightarrow> nat list" where
  "spec_duplicate_rows mapped =
     [i. (i, r) \<leftarrow> mapped,
        (Email_Normalized r \<noteq> []
           \<and> 2 \<le> count_list (map (\<lambda>(i, r). Email_Normalized r) mapped) (Email_Normalized r))
        \<or> (Mobile_Normalized r \<noteq> []
           \<and> 2 \<le> count_list (map (\<lambda>(i, r). Mobile_Normalized r) mapped) (Mobile_Normalized r))]"

subsection \<open>Example batches\<close>

definition employee :: "string \<Rightarrow> string \<Rightarrow> string \<Rightarrow> row" where
  "employee name email mobile =
     \<lparr>First_Name = name, Last_Name = ''Test'', Arabic_Name = [], Department = [], Role = [],
      Company = [], Mobile = mobile, Email = email, Website = [], Location = [],
      Google_Maps_Link = [], Notes = []\<rparr>"

text \<open>
  The scenario of section 8: row A is valid, row B has the e-mail of A, row C has an
  invalid mobile.
\<close>

definition scenario_rows :: "row list" where
  "scenario_rows =
     [employee ''A'' ''a@x.com'' ''0512345678'',
      employee ''B'' ''a@x.com'' ''0512345679'',
      employee ''C'' ''c@x.com'' ''12345'']"

text \<open>Two rows with valid, different mobiles and no e-mail.\<close>

definition empty_email_rows :: "row list" where
  "empty_email_rows =
     [employee ''A'' [] ''0512345678'',
      employee ''B'' [] ''0512345679'']"

text \<open>
  The same tables as \<open>a.py\<close> has them: every cell a string, or the cells of one column
  blank.
\<close>

definition str_cells :: "row \<Rightarrow> cells" where
  "str_cells r k =
     (case map_of
        [(''First_Name'', First_Name r), (''Last_Name'', Last_Name r),
         (''Arabic_Name'', Arabic_Name r), (''Department'', Department r),
         (''Role'', Role r), (''Company'', Company r), (''Mobile'', Mobile r),
         (''Email'', Email r), (''Website'', Website r), (''Location'', Location r),
         (''Google_Maps_Link'', Google_Maps_Link r), (''Notes'', Notes r)] k of
        Some s \<Rightarrow> Str s
      | None \<Rightarrow> Str [])"

definition blank_in :: "string \<Rightarrow> cells \<Rightarrow> cells" where
  "blank_in col r = r(col := NaN)"

text \<open>
  The two rows of \<open>empty_email_rows\<close> as \<open>a.py\<close> reads them from a sheet whose e-mail cells
  are blank.
\<close>

definition blank_email_table :: "cells list" where
  "blank_email_table = map (\<lambda>r. blank_in ''Email'' (str_cells r)) empty_email_rows"

text \<open>
  \<open>str.capitalize\<close> on a string of ASCII characters, for the statements about the example
  tables.
\<close>

definition capitalize_ascii :: "string \<Rightarrow> string" where
  "capitalize_ascii s =
     (case s of
        [] \<Rightarrow> []
      | c # cs \<Rightarrow>
          (let n = (of_char c :: nat)
           in if 97 \<le> n \<and> n \<le> 122 then char_of (n - 32) else c) # lower cs)"

text \<open>One valid row.\<close>

definition single_row :: "row list" where
  "single_row = [employee ''A'' ''a@x.com'' ''0512345678'']"


section \<open>Archive builder of \<open>app.py\<close>\<close>

text \<open>
  The renderers are external: what they return is kept as a term that names the renderer
  and its argument. The summary text is kept as the values printed in it (the four counts
  and the time stamp). The archive is the list of the entries written, in order;
  \<open>zipf.writestr(path, data)\<close> appends one.
\<close>

datatype payload =
    signature_en_pdf person
  | signature_ar_pdf person
  | business_card_pdf person
  | make_qr_png_bytes string
  | make_qr_svg_bytes string
  | plain_text string
  | summary_report nat int nat nat string

type_synonym archive = "(string \<times> payload) list"

definition writestr :: "archive \<Rightarrow> string \<Rightarrow> payload \<Rightarrow> archive" where
  "writestr zipf path data = zipf @ [(path, data)]"

text \<open>\<open>s.replace(" ", "_")\<close>\<close>

definition replace_space :: "string \<Rightarrow> string" where
  "replace_space s = map (\<lambda>c. if c = CHR '' '' then CHR ''_'' else c) s"

text \<open>
  \<^verbatim>\<open>
  def _join_root(root: str, path: str) -> str:
      root = (root or "").strip().strip("/\\")
      return f"{root}/{path}" if root else path
  \<close>
\<close>

definition join_root :: "string \<Rightarrow> string \<Rightarrow> string" where
  "join_root root path =
     (let root' = strip_chars [CHR ''/'', CHR 0x5C] (strip root)
      in if root' = [] then path else root' @ ''/'' @ path)"

definition write_full_package_to_zip :: "archive \<Rightarrow> person \<Rightarrow> string \<Rightarrow> archive" where
  "write_full_package_to_zip zipf p root =
    (let first = get_str p ''First_Name'';
         last = get_str p ''Last_Name'';
         role = get_str p ''Role'';
         comp = get_str p ''Company'';
         folder = replace_space (first @ ''_'' @ last @ ''_'' @ role @ ''_'' @ comp);
         z1 = writestr zipf (join_root root (folder @ ''/Signature_EN.pdf'')) (signature_en_pdf p);
         z2 = writestr z1 (join_root root (folder @ ''/Signature_AR.pdf'')) (signature_ar_pdf p);
         z3 = writestr z2 (join_root root (folder @ ''/BusinessCard.pdf'')) (business_card_pdf p);
         vcf = vcard_from_person p;
         base = replace_space (first @ ''_'' @ last);
         z4 = writestr z3 (join_root root (folder @ ''/QR/'' @ base @ ''.png''))
                (make_qr_png_bytes vcf);
         z5 = writestr z4 (join_root root (folder @ ''/QR/'' @ base @ ''.svg''))
                (make_qr_svg_bytes vcf)
     in writestr z5 (join_root root (folder @ ''/QR/'' @ base @ ''.vcf'')) (plain_text vcf))"

definition write_card_flat :: "archive \<Rightarrow> person \<Rightarrow> string \<Rightarrow> archive" where
  "write_card_flat zipf p root =
    (let base = replace_space (get_str p ''First_Name'' @ ''_'' @ get_str p ''Last_Name'')
     in writestr zipf (join_root root (''BusinessCards_Flat/'' @ base @ ''.pdf''))
          (business_card_pdf p))"

definition write_signature_flat :: "archive \<Rightarrow> person \<Rightarrow> string \<Rightarrow> archive" where
  "write_signature_flat zipf p root =
    (let base = replace_space (get_str p ''First_Name'' @ ''_'' @ get_str p ''Last_Name'');
         z1 = writestr zipf (join_root root (''Signatures_Flat/'' @ base @ ''_EN.pdf''))
                (signature_en_pdf p)
     in writestr z1 (join_root root (''Signatures_Flat/'' @ base @ ''_AR.pdf''))
          (signature_ar_pdf p))"

text \<open>
  The dict the loop of \<open>app.py\<close> builds for a row: the mobile and the e-mail are the
  normalized ones.
\<close>

definition person_of_row :: "mapped_row \<Rightarrow> person" where
  "person_of_row row = map_of
     [(''First_Name'', First_Name row),
      (''Last_Name'', Last_Name row),
      (''Arabic_Name'', Arabic_Name row),
      (''Department'', Department row),
      (''Role'', Role row),
      (''Company'', Company row),
      (''Mobile'', Mobile_Normalized row),
      (''Email'', Email_Normalized row),
      (''Website'', Website row),
      (''Location'', Location row),
      (''Notes'', Notes row)]"

text \<open>
  The body of the loop \<open>for _, row in clean_df.iterrows()\<close>:
  \<^verbatim>\<open>
  person = {...}
  folder_name = f"{safe_root}/{person['First_Name']}_{person['Last_Name']}"
  if "Full Package (All Files)" in download_options:
      write_full_package_to_zip(zipf, person, root=folder_name)
  if "Business Cards Only" in download_options:
      write_card_flat(zipf, person, root=folder_name)
  if "Email Signatures Only" in download_options:
      write_signature_flat(zipf, person, root=folder_name)
  \<close>
  Both keys read by \<open>person[...]\<close> are in the dict.
\<close>

definition write_row_app ::
  "string list \<Rightarrow> string \<Rightarrow> nat \<times> mapped_row \<Rightarrow> archive \<Rightarrow> archive" where
  "write_row_app download_options safe_root ir zipf =
    (let person = person_of_row (snd ir);
         folder_name = safe_root @ ''/'' @ get_str person ''First_Name'' @ ''_''
                         @ get_str person ''Last_Name'';
         z1 = (if ''Full Package (All Files)'' \<in> set download_options
               then write_full_package_to_zip zipf person folder_name else zipf);
         z2 = (if ''Business Cards Only'' \<in> set download_options
               then write_card_flat z1 person folder_name else z1)
     in if ''Email Signatures Only'' \<in> set download_options
        then write_signature_flat z2 person folder_name else z2)"

text \<open>
  The handler of the button: with no clean row it warns and stops (\<open>st.stop()\<close>), and no
  archive is built; otherwise it writes the summary and then runs the loop over
  \<open>clean_df\<close>.
\<close>

definition generate_app ::
  "string list \<Rightarrow> string \<Rightarrow> string \<Rightarrow> batch_app \<Rightarrow> archive option" where
  "generate_app download_options custom_zip_prefix now b =
    (if clean_count b = 0 then None
     else
       let safe_root = safe_root_app custom_zip_prefix;
           zipf = writestr [] (safe_root @ ''/Batch_Summary.txt'')
                    (summary_report (total b) (clean_count b) (invalid_count b)
                       (duplicate_count b) now)
       in Some (fold (write_row_app download_options safe_root) (clean_df b) zipf))"


section \<open>Properties of the mobile normalizer\<close>

lemmas rule_defs = rule1_def rule2_def rule3_def rule4_def rule5_def rule6_def startswith_def

lemma plus_not_digit: "\<not> is_digit CHR ''+''"
  by (simp add: is_digit_def)

text \<open>
  A string of digits never starts with \<open>+966\<close>: the sixth test of the function reads the
  stripped string, so its branch is never taken.
\<close>

lemma digits_not_plus966: "list_all is_digit c \<Longrightarrow> \<not> startswith c ''+966''"
proof
  assume d: "list_all is_digit c" and "startswith c ''+966''"
  then obtain r where "c = CHR ''+'' # r"
    by (auto simp: startswith_def prefix_def)
  with d show False using plus_not_digit by simp
qed

lemma list_all_digits_filter: "list_all is_digit (filter is_digit s)"
  by (simp add: list_all_iff)

lemma list_all_drop: "list_all P xs \<Longrightarrow> list_all P (drop n xs)"
  by (auto simp: list_all_iff dest: in_set_dropD)

lemma rule1_rewrite_digits: "list_all is_digit c \<Longrightarrow> list_all is_digit (rule1_rewrite c)"
  by (simp add: rule1_rewrite_def list_all_drop)

lemma shape_plus:
  assumes "prefix ''966'' c" "length c = 12" "list_all is_digit c"
  shows "normalized_shape (''+'' @ c)"
proof -
  from assms(1) obtain r where c: "c = ''966'' @ r" by (auto simp: prefix_def)
  with assms show ?thesis by (simp add: normalized_shape_def)
qed

lemma shape_plus966:
  assumes "length c = 9" "list_all is_digit c"
  shows "normalized_shape (''+966'' @ c)"
  using assms by (simp add: normalized_shape_def)

text \<open>The function with its dead branch removed and its tests named.\<close>

lemma normalize_saudi_mobile_rules:
  "normalize_saudi_mobile raw =
    (if raw = [] then ([], False)
     else let clean = rule1_rewrite (filter is_digit raw)
       in if rule2 clean then (''+'' @ clean, True)
          else if rule3 clean then (''+966'' @ drop 1 clean, True)
          else if rule4 clean then (''+966'' @ clean, True)
          else if rule5 clean then (''+'' @ clean, True)
          else (raw, False))"
proof -
  have "list_all is_digit (rule1_rewrite (filter is_digit raw))"
    by (simp add: rule1_rewrite_digits list_all_digits_filter)
  then have dead: "\<not> startswith (rule1_rewrite (filter is_digit raw)) ''+966''"
    by (rule digits_not_plus966)
  have rw: "(if startswith (filter is_digit raw) ''00966'' \<and> length (filter is_digit raw) = 14
             then drop 2 (filter is_digit raw) else filter is_digit raw)
            = rule1_rewrite (filter is_digit raw)"
    by (simp add: rule1_rewrite_def rule1_def)
  show ?thesis
    unfolding normalize_saudi_mobile_def Let_def rw
    using dead by (simp add: rule2_def rule3_def rule4_def rule5_def)
qed

lemma rule1_rewrite_rule5: "rule1 c \<Longrightarrow> rule5 (rule1_rewrite c)"
  by (auto simp: rule1_rewrite_def rule_defs prefix_def)

lemma rules_after_rewrite:
  "rule1 c \<or> rule2 c \<or> rule3 c \<or> rule4 c \<or> rule5 c \<longleftrightarrow>
   (let k = rule1_rewrite c in rule2 k \<or> rule3 k \<or> rule4 k \<or> rule5 k)"
proof (cases "rule1 c")
  case True
  then show ?thesis using rule1_rewrite_rule5 [OF True] by (simp add: Let_def)
next
  case False
  then show ?thesis by (simp add: rule1_rewrite_def Let_def)
qed

lemma rules_imp_valid:
  assumes "rules_1_to_5 raw"
  shows "snd (normalize_saudi_mobile raw) \<and> normalized_shape (fst (normalize_saudi_mobile raw))"
proof -
  define clean where "clean = rule1_rewrite (filter is_digit raw)"
  have dig: "list_all is_digit clean"
    by (simp add: clean_def rule1_rewrite_digits list_all_digits_filter)
  have ne: "raw \<noteq> []"
    using assms by (auto simp: rules_1_to_5_def rule_defs)
  have m: "rule2 clean \<or> rule3 clean \<or> rule4 clean \<or> rule5 clean"
    using assms rules_after_rewrite [of "filter is_digit raw"]
    by (simp add: rules_1_to_5_def clean_def Let_def)
  have s2: "rule2 clean \<Longrightarrow> normalized_shape (''+'' @ clean)"
    using dig by (intro shape_plus) (auto simp: rule_defs prefix_def)
  have s3: "rule3 clean \<Longrightarrow> normalized_shape (''+966'' @ drop 1 clean)"
    using dig by (intro shape_plus966) (auto simp: rule_defs list_all_drop)
  have s4: "rule4 clean \<Longrightarrow> normalized_shape (''+966'' @ clean)"
    using dig by (intro shape_plus966) (auto simp: rule_defs)
  have s5: "rule5 clean \<Longrightarrow> normalized_shape (''+'' @ clean)"
    using dig by (intro shape_plus) (auto simp: rule_defs)
  show ?thesis
    using ne m s2 s3 s4 s5
    by (auto simp: normalize_saudi_mobile_rules Let_def clean_def [symmetric])
qed

lemma no_rule_imp_invalid:
  assumes "\<not> rules_1_to_5 raw"
  shows "normalize_saudi_mobile raw = (raw, False)"
proof -
  have "\<not> (let k = rule1_rewrite (filter is_digit raw)
            in rule2 k \<or> rule3 k \<or> rule4 k \<or> rule5 k)"
    using assms rules_after_rewrite [of "filter is_digit raw"]
    by (simp add: rules_1_to_5_def Let_def)
  then show ?thesis
    by (auto simp: normalize_saudi_mobile_rules Let_def)
qed

lemma valid_imp_shape:
  assumes "snd (normalize_saudi_mobile raw)"
  shows "normalized_shape (fst (normalize_saudi_mobile raw))"
proof (cases "rules_1_to_5 raw")
  case True
  then show ?thesis using rules_imp_valid by blast
next
  case False
  then show ?thesis using assms no_rule_imp_invalid by simp
qed

text \<open>A string of the normalized shape is accepted as it is (by the second or fifth test).\<close>

lemma normalize_of_shape:
  assumes "normalized_shape s"
  shows "normalize_saudi_mobile s = (s, True)"
proof -
  from assms have len: "length s = 13" and t: "take 4 s = ''+966''"
    and d: "list_all is_digit (drop 4 s)"
    by (simp_all add: normalized_shape_def)
  define ds where "ds = drop 4 s"
  have s: "s = ''+966'' @ ds" using t ds_def by (metis append_take_drop_id)
  have lds: "length ds = 9" using len ds_def by simp
  have f: "filter is_digit ds = ds" using d ds_def by (simp add: list_all_iff filter_id_conv)
  have c: "filter is_digit s = ''966'' @ ds" using s f by (simp add: is_digit_def)
  show ?thesis
    unfolding normalize_saudi_mobile_def c using lds s
    by (auto simp: startswith_def Let_def)
qed

lemmas mobile_eval = normalize_saudi_mobile_def is_digit_def startswith_def rules_1_to_5_def
  rule1_def rule2_def rule3_def rule4_def rule5_def rule6_def normalized_shape_def

text \<open>
  Claim C8. The mobile normalizer is idempotent on its normalized output: when it accepts
  \<open>x\<close>, normalizing the returned string again returns the same string.
\<close>

theorem normalize_saudi_mobile_idempotent:
  "snd (normalize_saudi_mobile x) \<Longrightarrow>
   fst (normalize_saudi_mobile (fst (normalize_saudi_mobile x))) = fst (normalize_saudi_mobile x)"
  using valid_imp_shape [of x] normalize_of_shape by simp

theorem normalize_saudi_mobile_idempotent_witness:
  "snd (normalize_saudi_mobile ''05 1234 5678'') \<and>
   fst (normalize_saudi_mobile (fst (normalize_saudi_mobile ''05 1234 5678''))) = ''+966512345678''"
proof -
  have h: "snd (normalize_saudi_mobile ''05 1234 5678'')"
    by (simp add: mobile_eval)
  have v: "fst (normalize_saudi_mobile ''05 1234 5678'') = ''+966512345678''"
    by (simp add: mobile_eval)
  show ?thesis
    using h normalize_saudi_mobile_idempotent [OF h] v by simp
qed

text \<open>
  Claim C1, as amended. For every input whose digit-stripped form matches one of the
  rules 1 to 5, the normalizer returns valid = true and a string of the shape \<open>+966\<close>
  followed by nine digits (thirteen characters). For every input that matches none of
  the rules 1 to 6 it returns the raw string unchanged with valid = false, and the empty
  input gives the empty string with false.
\<close>

theorem normalize_saudi_mobile_rules_1_to_5:
  "(rules_1_to_5 raw \<longrightarrow>
      snd (normalize_saudi_mobile raw) \<and> normalized_shape (fst (normalize_saudi_mobile raw)))
   \<and> (\<not> rules_1_to_5 raw \<and> \<not> rule6 raw \<longrightarrow> normalize_saudi_mobile raw = (raw, False))
   \<and> normalize_saudi_mobile [] = ([], False)"
proof (intro conjI impI)
  assume "rules_1_to_5 raw"
  then show "snd (normalize_saudi_mobile raw)"
    and "normalized_shape (fst (normalize_saudi_mobile raw))"
    using rules_imp_valid by blast+
next
  assume "\<not> rules_1_to_5 raw \<and> \<not> rule6 raw"
  then show "normalize_saudi_mobile raw = (raw, False)"
    using no_rule_imp_invalid by blast
next
  show "normalize_saudi_mobile [] = ([], False)"
    by (simp add: normalize_saudi_mobile_def)
qed

theorem normalize_saudi_mobile_rules_1_to_5_witness:
  "rules_1_to_5 ''00966 51 234 5678''
   \<and> normalize_saudi_mobile ''00966 51 234 5678'' = (''+966512345678'', True)
   \<and> normalized_shape ''+966512345678''
   \<and> \<not> rules_1_to_5 ''12345'' \<and> \<not> rule6 ''12345''
   \<and> normalize_saudi_mobile ''12345'' = (''12345'', False)"
proof -
  have a: "rules_1_to_5 ''00966 51 234 5678''"
    by (simp add: mobile_eval)
  have b: "\<not> rules_1_to_5 ''12345'' \<and> \<not> rule6 ''12345''"
    by (simp add: mobile_eval)
  have v: "fst (normalize_saudi_mobile ''00966 51 234 5678'') = ''+966512345678''"
    by (simp add: mobile_eval)
  from normalize_saudi_mobile_rules_1_to_5 [of "''00966 51 234 5678''"] a
  have "snd (normalize_saudi_mobile ''00966 51 234 5678'')"
    and "normalized_shape (fst (normalize_saudi_mobile ''00966 51 234 5678''))"
    by blast+
  moreover from normalize_saudi_mobile_rules_1_to_5 [of "''12345''"] b
  have "normalize_saudi_mobile ''12345'' = (''12345'', False)"
    by blast
  ultimately show ?thesis
    using a b v by (simp add: prod_eq_iff)
qed

text \<open>
  Claim C1 as stated fails: the input \<open>+966-512-3456\<close> matches rule 6 (it starts with
  \<open>+966\<close> and has thirteen characters), and the normalizer returns it with valid = false.
\<close>

theorem normalize_saudi_mobile_rule6_counterexample:
  "rule6 ''+966-512-3456''
   \<and> normalize_saudi_mobile ''+966-512-3456'' = (''+966-512-3456'', False)"
  by (simp add: mobile_eval)

text \<open>
  Claim C2. The input \<open>+966 12345678\<close> starts with \<open>+966\<close>, has thirteen characters and
  its stripped form \<open>96612345678\<close> matches none of the rules 1 to 5, so rule 6 should
  return it with valid = true; the function returns it with valid = false.
\<close>

theorem normalize_saudi_mobile_rule6_not_applied:
  "rule6 ''+966 12345678'' \<and> \<not> rules_1_to_5 ''+966 12345678''
   \<and> normalize_saudi_mobile ''+966 12345678'' = (''+966 12345678'', False)"
  by (simp add: mobile_eval)

section \<open>Properties of the e-mail normalizer\<close>

text \<open>Stripping at both ends: what is removed satisfies the test, what is left does not at its ends.\<close>

lemma trim_decomposition:
  "\<exists>a b. s = a @ rev (dropWhile P (rev (dropWhile P s))) @ b \<and> list_all P a \<and> list_all P b"
proof -
  define t where "t = dropWhile P s"
  have "rev t = takeWhile P (rev t) @ dropWhile P (rev t)" by simp
  then have "t = rev (dropWhile P (rev t)) @ rev (takeWhile P (rev t))"
    by (metis rev_append rev_rev_ident)
  moreover have "s = takeWhile P s @ t" by (simp add: t_def)
  moreover have "list_all P (takeWhile P s)"
    by (auto simp: list_all_iff dest: set_takeWhileD)
  moreover have "list_all P (rev (takeWhile P (rev t)))"
    by (auto simp: list_all_iff dest: set_takeWhileD)
  ultimately show ?thesis unfolding t_def by metis
qed

lemma trim_ends:
  assumes "t = rev (dropWhile P (rev (dropWhile P s)))" and "t \<noteq> []"
  shows "\<not> P (hd t) \<and> \<not> P (last t)"
proof -
  define d where "d = dropWhile P s"
  have l: "last t = hd (dropWhile P (rev d))"
    using assms by (simp add: d_def last_rev)
  have "dropWhile P (rev d) \<noteq> []" using assms by (simp add: d_def)
  then have nl: "\<not> P (last t)" unfolding l by (rule hd_dropWhile)
  have "rev d = takeWhile P (rev d) @ dropWhile P (rev d)" by simp
  then have "d = t @ rev (takeWhile P (rev d))"
    using assms(1) by (metis d_def rev_append rev_rev_ident)
  then have "hd d = hd t" using assms(2) by (metis hd_append2)
  moreover have "d \<noteq> []"
  proof
    assume "d = []"
    then have "t = []"
      using assms(1) unfolding d_def by (metis dropWhile.simps(1) rev.simps(1))
    with assms(2) show False by simp
  qed
  ultimately have "\<not> P (hd t)" using hd_dropWhile [of P s] by (simp add: d_def)
  with nl show ?thesis by simp
qed

lemma strip_decomposition:
  "\<exists>a b. s = a @ strip s @ b \<and> list_all isspace a \<and> list_all isspace b"
  unfolding strip_def by (rule trim_decomposition)

lemma strip_ends: "strip s \<noteq> [] \<Longrightarrow> \<not> isspace (hd (strip s)) \<and> \<not> isspace (last (strip s))"
  using trim_ends [of "strip s" isspace s] by (simp add: strip_def)

lemma strip_Nil: "strip [] = []"
  by (simp add: strip_def)

lemma lower_Nil: "lower [] = []"
  by (simp add: lower_def)

lemma count_list_pos_iff: "0 < count_list xs x \<longleftrightarrow> x \<in> set xs"
  by (induction xs) auto

lemma in_set_and_count_one: "(c \<in> set e \<and> count_list e c = 1) \<longleftrightarrow> count_list e c = 1"
  using count_list_pos_iff [of e c] by auto

lemmas email_eval = normalize_email_def lower_def lower_char_def strip_def isspace_def
  char_of_eq_iff

text \<open>The whitespace characters, and what lower-casing does to a code point.\<close>

lemma isspace_chars:
  "isspace c \<longleftrightarrow> (of_char c :: nat) \<in> set [9, 10, 11, 12, 13, 28, 29, 30, 31, 32, 133, 160]"
  unfolding isspace_def Let_def by simp arith

lemma lower_char_code_point:
  "(of_char (lower_char c) :: nat) =
     (if (65 \<le> (of_char c :: nat) \<and> (of_char c :: nat) \<le> 90)
         \<or> (192 \<le> (of_char c :: nat) \<and> (of_char c :: nat) \<le> 222 \<and> (of_char c :: nat) \<noteq> 215)
      then of_char c + 32 else of_char c)"
  unfolding lower_char_def Let_def by (auto simp: mod_if)

text \<open>
  Claim C9. The e-mail normalizer returns its input trimmed and lower-cased, and reports it
  valid exactly when that string contains one \<open>@\<close>; the empty input gives the empty string
  and false; \<open>Foo@Bar.COM\<close> gives \<open>foo@bar.com\<close> and true, and \<open>a@b@c\<close> is invalid.
  Trimmed: the input is whitespace, then the trimmed string, then whitespace, and the
  trimmed string neither starts nor ends with whitespace; the whitespace characters are
  the twelve code points listed. Lower-cased: character by character, \<open>A\<close> to \<open>Z\<close> and the
  Latin-1 capitals are moved 32 code points up and every other character is unchanged.
\<close>

theorem normalize_email_trim_lower_one_at:
  "normalize_email raw = (lower (strip raw), count_list (lower (strip raw)) CHR ''@'' = 1)
   \<and> (\<exists>a b. raw = a @ strip raw @ b \<and> list_all isspace a \<and> list_all isspace b)
   \<and> (strip raw \<noteq> [] \<longrightarrow> \<not> isspace (hd (strip raw)) \<and> \<not> isspace (last (strip raw)))
   \<and> (isspace c \<longleftrightarrow>
        (of_char c :: nat) \<in> set [9, 10, 11, 12, 13, 28, 29, 30, 31, 32, 133, 160])
   \<and> length (lower raw) = length raw
   \<and> (\<forall>i<length raw. lower raw ! i = lower_char (raw ! i))
   \<and> (of_char (lower_char c) :: nat) =
        (if (65 \<le> (of_char c :: nat) \<and> (of_char c :: nat) \<le> 90)
            \<or> (192 \<le> (of_char c :: nat) \<and> (of_char c :: nat) \<le> 222
                \<and> (of_char c :: nat) \<noteq> 215)
         then of_char c + 32 else of_char c)
   \<and> normalize_email [] = ([], False)
   \<and> normalize_email ''Foo@Bar.COM'' = (''foo@bar.com'', True)
   \<and> normalize_email ([CHR 0x09] @ ''  Foo@Bar.COM '' @ [CHR 0x0A]) = (''foo@bar.com'', True)
   \<and> normalize_email ''  A@B  '' = (''a@b'', True)
   \<and> \<not> snd (normalize_email ''a@b@c'')
   \<and> normalize_email '' a@b@c '' = (''a@b@c'', False)
   \<and> normalize_email ''   '' = ([], False)"
proof (intro conjI)
  show "normalize_email raw = (lower (strip raw), count_list (lower (strip raw)) CHR ''@'' = 1)"
    unfolding normalize_email_def Let_def in_set_and_count_one
    by (simp add: strip_Nil lower_Nil)
  show "\<exists>a b. raw = a @ strip raw @ b \<and> list_all isspace a \<and> list_all isspace b"
    by (rule strip_decomposition)
  show "strip raw \<noteq> [] \<longrightarrow> \<not> isspace (hd (strip raw)) \<and> \<not> isspace (last (strip raw))"
    using strip_ends by blast
  show "isspace c \<longleftrightarrow>
        (of_char c :: nat) \<in> set [9, 10, 11, 12, 13, 28, 29, 30, 31, 32, 133, 160]"
    by (rule isspace_chars)
  show "length (lower raw) = length raw"
    by (simp add: lower_def)
  show "\<forall>i<length raw. lower raw ! i = lower_char (raw ! i)"
    by (simp add: lower_def)
  show "(of_char (lower_char c) :: nat) =
        (if (65 \<le> (of_char c :: nat) \<and> (of_char c :: nat) \<le> 90)
            \<or> (192 \<le> (of_char c :: nat) \<and> (of_char c :: nat) \<le> 222
                \<and> (of_char c :: nat) \<noteq> 215)
         then of_char c + 32 else of_char c)"
    by (rule lower_char_code_point)
  show "normalize_email [] = ([], False)"
    by (simp add: email_eval)
  show "normalize_email ''Foo@Bar.COM'' = (''foo@bar.com'', True)"
    by (simp add: email_eval)
  show "normalize_email ([CHR 0x09] @ ''  Foo@Bar.COM '' @ [CHR 0x0A]) = (''foo@bar.com'', True)"
    by (simp add: email_eval)
  show "normalize_email ''  A@B  '' = (''a@b'', True)"
    by (simp add: email_eval)
  show "\<not> snd (normalize_email ''a@b@c'')"
    by (simp add: email_eval)
  show "normalize_email '' a@b@c '' = (''a@b@c'', False)"
    by (simp add: email_eval)
  show "normalize_email ''   '' = ([], False)"
    by (simp add: email_eval)
qed

theorem normalize_email_trim_lower_one_at_witness:
  "strip ([CHR 0x09] @ ''  Foo@Bar.COM '' @ [CHR 0x0A]) = ''Foo@Bar.COM''
   \<and> \<not> isspace (hd (strip ([CHR 0x09] @ ''  Foo@Bar.COM '' @ [CHR 0x0A])))
   \<and> \<not> isspace (last (strip ([CHR 0x09] @ ''  Foo@Bar.COM '' @ [CHR 0x0A])))
   \<and> (0::nat) < length ''Foo''
   \<and> lower ''Foo'' ! 0 = lower_char (''Foo'' ! 0)"
proof -
  have v: "strip ([CHR 0x09] @ ''  Foo@Bar.COM '' @ [CHR 0x0A]) = ''Foo@Bar.COM''"
    by (simp add: strip_def isspace_def)
  then have ne: "strip ([CHR 0x09] @ ''  Foo@Bar.COM '' @ [CHR 0x0A]) \<noteq> []"
    by simp
  note t = normalize_email_trim_lower_one_at
    [of "[CHR 0x09] @ ''  Foo@Bar.COM '' @ [CHR 0x0A]" "CHR ''a''"]
  from t have "strip ([CHR 0x09] @ ''  Foo@Bar.COM '' @ [CHR 0x0A]) \<noteq> [] \<longrightarrow>
      \<not> isspace (hd (strip ([CHR 0x09] @ ''  Foo@Bar.COM '' @ [CHR 0x0A])))
      \<and> \<not> isspace (last (strip ([CHR 0x09] @ ''  Foo@Bar.COM '' @ [CHR 0x0A])))"
    by (elim conjE)
  with ne have a: "\<not> isspace (hd (strip ([CHR 0x09] @ ''  Foo@Bar.COM '' @ [CHR 0x0A])))
      \<and> \<not> isspace (last (strip ([CHR 0x09] @ ''  Foo@Bar.COM '' @ [CHR 0x0A])))"
    by (rule rev_mp)
  have p: "(0::nat) < length ''Foo''" by simp
  from normalize_email_trim_lower_one_at [of "''Foo''" "CHR ''a''"]
  have "\<forall>i<length ''Foo''. lower ''Foo'' ! i = lower_char (''Foo'' ! i)"
    by (elim conjE)
  with p have b: "lower ''Foo'' ! 0 = lower_char (''Foo'' ! 0)" by blast
  from v a p b show ?thesis by (intro conjI) (simp_all only: simp_thms)
qed


section \<open>Properties of the vCard serializers\<close>

text \<open>
  Claim C10, as amended. In \<open>a.py\<close> and \<open>app.py\<close> the serializer writes the lines
  \<open>BEGIN:VCARD\<close>, \<open>VERSION:3.0\<close>, \<open>N\<close>, \<open>FN\<close>, \<open>ORG\<close>, \<open>TITLE\<close>, \<open>TEL;TYPE=CELL\<close>, \<open>EMAIL\<close>,
  \<open>URL\<close>, \<open>ADR;TYPE=WORK\<close>, \<open>NOTE\<close>, \<open>END:VCARD\<close> in that order, each from the matching
  field, with an empty value for a missing or empty field. In \<open>app2.py\<close> it writes
  \<open>BEGIN:VCARD\<close>, \<open>VERSION:3.0\<close>, \<open>N\<close>, \<open>FN\<close>, \<open>TITLE\<close>, \<open>ORG\<close>, then each of
  \<open>EMAIL;TYPE=INTERNET\<close>, \<open>TEL;TYPE=CELL\<close>, \<open>TEL;TYPE=WORK,VOICE\<close>, \<open>URL\<close>, \<open>ADR;TYPE=WORK\<close>
  only when its field is not empty, then \<open>END:VCARD\<close>, and no \<open>NOTE\<close>.
\<close>

theorem vcard_lines_in_order:
  "vcard_from_person p =
     join nl [''BEGIN:VCARD'', ''VERSION:3.0'',
       ''N:'' @ get_str p ''Last_Name'' @ '';'' @ get_str p ''First_Name'',
       ''FN:'' @ get_str p ''First_Name'' @ '' '' @ get_str p ''Last_Name'',
       ''ORG:'' @ get_str p ''Company'',
       ''TITLE:'' @ get_str p ''Role'',
       ''TEL;TYPE=CELL:'' @ get_str p ''Mobile'',
       ''EMAIL:'' @ get_str p ''Email'',
       ''URL:'' @ get_str p ''Website'',
       ''ADR;TYPE=WORK:'' @ get_str p ''Location'',
       ''NOTE:'' @ get_str p ''Notes'',
       ''END:VCARD'']
   \<and> vcard_from_person Map.empty =
     join nl [''BEGIN:VCARD'', ''VERSION:3.0'', ''N:;'', ''FN: '', ''ORG:'', ''TITLE:'',
       ''TEL;TYPE=CELL:'', ''EMAIL:'', ''URL:'', ''ADR;TYPE=WORK:'', ''NOTE:'', ''END:VCARD'']
   \<and> vcard_from_person_app2 q =
     join nl ([''BEGIN:VCARD'', ''VERSION:3.0'',
        ''N:'' @ LastName q @ '';'' @ FirstName q @ '';;;'',
        ''FN:'' @ strip (FirstName q @ '' '' @ LastName q),
        ''TITLE:'' @ Person.Role q,
        ''ORG:'' @ Person.Company q]
       @ optional_line ''EMAIL;TYPE=INTERNET:'' (Person.Email q)
       @ optional_line ''TEL;TYPE=CELL:'' (Person.Mobile q)
       @ optional_line ''TEL;TYPE=WORK,VOICE:'' (Phone q)
       @ optional_line ''URL:'' (Person.Website q)
       @ (if Address q = [] then [] else [''ADR;TYPE=WORK:;;'' @ Address q @ '';;;;''])
       @ [''END:VCARD''])"
proof (intro conjI)
  show "vcard_from_person Map.empty =
     join nl [''BEGIN:VCARD'', ''VERSION:3.0'', ''N:;'', ''FN: '', ''ORG:'', ''TITLE:'',
       ''TEL;TYPE=CELL:'', ''EMAIL:'', ''URL:'', ''ADR;TYPE=WORK:'', ''NOTE:'', ''END:VCARD'']"
    by (simp add: vcard_from_person_def Let_def get_str_def)
qed (simp_all add: vcard_from_person_def vcard_from_person_app2_def Let_def optional_line_def
       full_name_en_def)

text \<open>
  Claim C10 as stated fails on \<open>app2.py\<close>: for a person with every field empty the block
  has \<open>TITLE\<close> before \<open>ORG\<close> and no line for \<open>TEL\<close>, \<open>EMAIL\<close>, \<open>URL\<close>, \<open>ADR\<close> or \<open>NOTE\<close>.
\<close>

theorem vcard_app2_omits_empty_fields:
  "vcard_from_person_app2 blank_Person =
     join nl [''BEGIN:VCARD'', ''VERSION:3.0'', ''N:;;;;'', ''FN:'', ''TITLE:'', ''ORG:'',
       ''END:VCARD'']"
  by (simp add: vcard_from_person_app2_def blank_Person_def full_name_en_def strip_def
       isspace_def)


section \<open>Properties of the root prefix\<close>

lemma re_sub_safe: "list_all is_safe s \<Longrightarrow> re_sub_unsafe s = s"
  by (induction s) auto

lemma re_sub_unsafe_run:
  assumes u: "u \<noteq> []" and a: "list_all (\<lambda>c. \<not> is_safe c) u" and b: "b = [] \<or> is_safe (hd b)"
  shows "re_sub_unsafe (u @ b) = CHR ''_'' # re_sub_unsafe b"
proof -
  from u obtain c cs where ucs: "u = c # cs" by (cases u) auto
  have "dropWhile (\<lambda>x. \<not> is_safe x) (cs @ b) = dropWhile (\<lambda>x. \<not> is_safe x) b"
    using a ucs by (simp add: list_all_iff dropWhile_append)
  also have "\<dots> = b" using b by (cases b) auto
  finally show ?thesis using a ucs by simp
qed

lemma re_sub_append_safe_end:
  "a = [] \<or> is_safe (last a) \<Longrightarrow> re_sub_unsafe (a @ t) = re_sub_unsafe a @ re_sub_unsafe t"
proof (induction a rule: re_sub_unsafe.induct)
  case 1
  then show ?case by simp
next
  case (2 c cs)
  show ?case
  proof (cases "is_safe c")
    case True
    then show ?thesis using 2 by (cases cs) auto
  next
    case False
    define d where "d = dropWhile (\<lambda>x. \<not> is_safe x) cs"
    have ne: "cs \<noteq> []" using 2(3) False by (cases cs) auto
    have l: "is_safe (last cs)" using 2(3) ne by simp
    have dne: "d \<noteq> []" using l ne unfolding d_def
      by (metis dropWhile_eq_Nil_conv last_in_set)
    have ld: "last d = last cs" using dne unfolding d_def
      by (metis append_Nil2 last_appendR takeWhile_dropWhile_id)
    have app: "dropWhile (\<lambda>x. \<not> is_safe x) (cs @ t) = d @ t"
      using dne unfolding d_def by (metis dropWhile_append1 dropWhile_eq_Nil_conv)
    have "re_sub_unsafe (d @ t) = re_sub_unsafe d @ re_sub_unsafe t"
      using 2(2) [OF False] dne ld l by (simp add: d_def)
    then show ?thesis using False app by (simp add: d_def)
  qed
qed

lemma re_sub_run_between:
  assumes "u \<noteq> []" "list_all (\<lambda>c. \<not> is_safe c) u" "a = [] \<or> is_safe (last a)"
    "b = [] \<or> is_safe (hd b)"
  shows "re_sub_unsafe (a @ u @ b) = re_sub_unsafe a @ ''_'' @ re_sub_unsafe b"
  using assms by (simp add: re_sub_append_safe_end re_sub_unsafe_run)

lemma re_sub_chars: "c \<in> set (re_sub_unsafe s) \<Longrightarrow> is_safe c"
  by (induction s rule: re_sub_unsafe.induct) (auto simp: is_safe_def split: if_splits)

lemma strip_chars_decomposition:
  "\<exists>l r. s = l @ strip_chars ''_'' s @ r \<and> set l \<subseteq> {CHR ''_''} \<and> set r \<subseteq> {CHR ''_''}"
proof -
  obtain l r where "s = l @ strip_chars ''_'' s @ r"
    and "list_all (\<lambda>c. c \<in> set ''_'') l" and "list_all (\<lambda>c. c \<in> set ''_'') r"
    using trim_decomposition [of s "\<lambda>c. c \<in> set ''_''"] unfolding strip_chars_def by blast
  then show ?thesis by (auto simp: list_all_iff)
qed

lemma strip_chars_ends:
  "strip_chars ''_'' s \<noteq> [] \<Longrightarrow>
   hd (strip_chars ''_'' s) \<noteq> CHR ''_'' \<and> last (strip_chars ''_'' s) \<noteq> CHR ''_''"
  using trim_ends [of "strip_chars ''_'' s" "\<lambda>c. c \<in> set ''_''" s]
  by (simp add: strip_chars_def)

lemmas root_eval = safe_root_app_def safe_root_a_def sanitize_root_def strip_chars_def is_safe_def

text \<open>
  Claim C7. The sanitized root keeps the characters of \<open>[A-Za-z0-9._-]\<close> as they are,
  writes one underscore for every maximal run of other characters, drops the underscores
  at both ends, and is the default name when nothing is left; \<open>Q1 Hires / 2024!\<close> becomes
  \<open>Q1_Hires_2024\<close>.
\<close>

theorem safe_root_sanitized:
  "(list_all is_safe s \<longrightarrow> re_sub_unsafe s = s)
   \<and> (u \<noteq> [] \<and> list_all (\<lambda>c. \<not> is_safe c) u \<and> (a = [] \<or> is_safe (last a))
        \<and> (b = [] \<or> is_safe (hd b))
      \<longrightarrow> re_sub_unsafe (a @ u @ b) = re_sub_unsafe a @ ''_'' @ re_sub_unsafe b)
   \<and> (let t = strip_chars ''_'' (re_sub_unsafe name)
      in (\<exists>l r. re_sub_unsafe name = l @ t @ r \<and> set l \<subseteq> {CHR ''_''} \<and> set r \<subseteq> {CHR ''_''})
         \<and> (t \<noteq> [] \<longrightarrow> hd t \<noteq> CHR ''_'' \<and> last t \<noteq> CHR ''_'')
         \<and> sanitize_root name dflt = (if t = [] then dflt else t))
   \<and> safe_root_app name = sanitize_root name ''Batch_Outputs''
   \<and> safe_root_a name dflt = sanitize_root (if name = [] then dflt else name) dflt
   \<and> safe_root_app ''Q1 Hires / 2024!'' = ''Q1_Hires_2024''
   \<and> safe_root_a ''Q1 Hires / 2024!'' dflt = ''Q1_Hires_2024''"
proof (intro conjI impI)
  show "re_sub_unsafe s = s" if "list_all is_safe s"
    using that by (rule re_sub_safe)
  show "re_sub_unsafe (a @ u @ b) = re_sub_unsafe a @ ''_'' @ re_sub_unsafe b"
    if "u \<noteq> [] \<and> list_all (\<lambda>c. \<not> is_safe c) u \<and> (a = [] \<or> is_safe (last a))
        \<and> (b = [] \<or> is_safe (hd b))"
    using that re_sub_run_between by blast
  show "let t = strip_chars ''_'' (re_sub_unsafe name)
      in (\<exists>l r. re_sub_unsafe name = l @ t @ r \<and> set l \<subseteq> {CHR ''_''} \<and> set r \<subseteq> {CHR ''_''})
         \<and> (t \<noteq> [] \<longrightarrow> hd t \<noteq> CHR ''_'' \<and> last t \<noteq> CHR ''_'')
         \<and> sanitize_root name dflt = (if t = [] then dflt else t)"
    unfolding Let_def
    using strip_chars_decomposition [of "re_sub_unsafe name"]
      strip_chars_ends [of "re_sub_unsafe name"]
    by (simp add: sanitize_root_def Let_def)
  show "safe_root_app name = sanitize_root name ''Batch_Outputs''"
    by (simp add: safe_root_app_def)
  show "safe_root_a name dflt = sanitize_root (if name = [] then dflt else name) dflt"
    by (simp add: safe_root_a_def)
  show "safe_root_app ''Q1 Hires / 2024!'' = ''Q1_Hires_2024''"
    by (simp add: root_eval)
  show "safe_root_a ''Q1 Hires / 2024!'' dflt = ''Q1_Hires_2024''"
    by (simp add: root_eval)
qed

theorem safe_root_sanitized_witness:
  "list_all is_safe ''Q1'' \<and> re_sub_unsafe ''Q1'' = ''Q1''
   \<and> list_all (\<lambda>c. \<not> is_safe c) '' / '' \<and> is_safe (last ''Hires'') \<and> is_safe (hd ''2024!'')
   \<and> re_sub_unsafe (''Hires'' @ '' / '' @ ''2024!'')
       = re_sub_unsafe ''Hires'' @ ''_'' @ re_sub_unsafe ''2024!''
   \<and> strip_chars ''_'' (re_sub_unsafe ''Q1 Hires / 2024!'') = ''Q1_Hires_2024''
   \<and> sanitize_root ''Q1 Hires / 2024!'' ''Batch_Outputs'' = ''Q1_Hires_2024''
   \<and> sanitize_root ''!!'' ''Batch_Outputs'' = ''Batch_Outputs''"
proof -
  note t = safe_root_sanitized [of "''Q1''" "'' / ''" "''Hires''" "''2024!''"
      "''Q1 Hires / 2024!''" "''Batch_Outputs''"]
  note e = safe_root_sanitized [of "''Q1''" "'' / ''" "''Hires''" "''2024!''"
      "''!!''" "''Batch_Outputs''"]
  have h1: "list_all is_safe ''Q1''" by (simp add: is_safe_def)
  have h2: "'' / '' \<noteq> [] \<and> list_all (\<lambda>c. \<not> is_safe c) '' / ''
      \<and> (''Hires'' = [] \<or> is_safe (last ''Hires''))
      \<and> (''2024!'' = [] \<or> is_safe (hd ''2024!''))"
    by (simp add: is_safe_def)
  have v: "strip_chars ''_'' (re_sub_unsafe ''Q1 Hires / 2024!'') = ''Q1_Hires_2024''"
    by (simp add: strip_chars_def is_safe_def)
  have w: "strip_chars ''_'' (re_sub_unsafe ''!!'') = []"
    by (simp add: strip_chars_def is_safe_def)
  from t h1 have c1: "re_sub_unsafe ''Q1'' = ''Q1''" by blast
  from t h2 have c2: "re_sub_unsafe (''Hires'' @ '' / '' @ ''2024!'')
       = re_sub_unsafe ''Hires'' @ ''_'' @ re_sub_unsafe ''2024!''" by blast
  from t have c3: "sanitize_root ''Q1 Hires / 2024!'' ''Batch_Outputs'' = ''Q1_Hires_2024''"
    unfolding Let_def v by simp
  from e have c4: "sanitize_root ''!!'' ''Batch_Outputs'' = ''Batch_Outputs''"
    unfolding Let_def w by simp
  show ?thesis using h1 h2 v c1 c2 c3 c4 by simp
qed

section \<open>Properties of the batch classification\<close>

lemma select_map: "select fr (map P fr) = filter P fr"
  unfolding select_def by (induction fr) auto

lemma map2_map_map: "map2 f (map g xs) (map h xs) = map (\<lambda>x. f (g x) (h x)) xs"
  by (induction xs) auto

lemma index_select_subset: "set (index (select fr m)) \<subseteq> set (index fr)"
  unfolding select_def index_def by (force dest: set_zip_leftD)

lemma index_enumerate: "index (enumerate 0 xs) = [0..<length xs]"
  by (simp add: index_def)

lemma index_select_enumerate: "set (index (select (enumerate 0 xs) m)) \<subseteq> {0..<length xs}"
  using index_select_subset [of "enumerate 0 xs" m] by (simp add: index_enumerate)

lemma length_index_union: "length (index_union a b) = card (set a \<union> set b)"
  by (simp add: index_union_def length_remdups_card_conv)

lemma length_filter_outside:
  assumes "index fr = [0..<n]" and "S \<subseteq> {0..<n}"
  shows "length (filter (\<lambda>(i, r). i \<notin> S) fr) + card S = n"
proof -
  have "length (filter (\<lambda>(i, r). i \<notin> S) fr) = length (filter (\<lambda>i. i \<notin> S) (map fst fr))"
    by (simp add: comp_def case_prod_unfold)
  also have "\<dots> = length (filter (\<lambda>i. i \<notin> S) [0..<n])"
    using assms(1) by (simp add: index_def)
  also have "\<dots> = card (set (filter (\<lambda>i. i \<notin> S) [0..<n]))"
    by (rule distinct_card [symmetric]) simp
  also have "set (filter (\<lambda>i. i \<notin> S) [0..<n]) = {0..<n} - S" by auto
  also have "card ({0..<n} - S) = n - card S"
    using assms(2) by (simp add: card_Diff_subset finite_subset)
  finally have "length (filter (\<lambda>(i, r). i \<notin> S) fr) = n - card S" .
  moreover have "card S \<le> n" using assms(2) card_mono [of "{0..<n}" S] by simp
  ultimately show ?thesis by simp
qed

lemma clean_rows_app_filter:
  "clean_rows_app mapped dups invs =
     filter (\<lambda>(i, r). i \<notin> set (index dups) \<union> set (index invs)) mapped"
  unfolding clean_rows_app_def map2_map_map select_map
  by (simp add: case_prod_unfold)

lemma invalid_rows_filter:
  "invalid_rows mapped = filter (\<lambda>(i, r). \<not> Email_Valid r \<or> \<not> Mobile_Valid r) mapped"
  by (simp add: invalid_rows_def select_map)

lemma classify_app_Inr:
  assumes "df \<noteq> []"
  shows "\<exists>b. classify_app df = Inr b \<and> total b = length df
     \<and> duplicates b = duplicates_app (enumerate 0 (map normalize_row df))
     \<and> invalids b = invalid_rows (enumerate 0 (map normalize_row df))
     \<and> clean_df b = clean_rows_app (enumerate 0 (map normalize_row df)) (duplicates b) (invalids b)
     \<and> clean_count b = int (length (clean_df b))
     \<and> invalid_count b = length (invalids b) \<and> duplicate_count b = length (duplicates b)"
  using assms by (simp add: classify_app_def Let_def)

lemma clean_count_app:
  assumes "df \<noteq> []"
  shows "\<exists>b. classify_app df = Inr b \<and> total b = length df
     \<and> clean_count b + int (card (set (index (invalids b)) \<union> set (index (duplicates b))))
         = int (total b)"
proof -
  define mapped where "mapped = enumerate 0 (map normalize_row df)"
  from classify_app_Inr [OF assms] obtain b where b: "classify_app df = Inr b"
    and t: "total b = length df"
    and d: "duplicates b = duplicates_app mapped"
    and i: "invalids b = invalid_rows mapped"
    and c: "clean_df b = clean_rows_app mapped (duplicates b) (invalids b)"
    and cc: "clean_count b = int (length (clean_df b))"
    unfolding mapped_def by blast
  have sd: "set (index (duplicates b)) \<subseteq> {0..<length df}"
    unfolding d duplicates_app_def Let_def mapped_def
    using index_select_enumerate [of "map normalize_row df"] by simp
  have si: "set (index (invalids b)) \<subseteq> {0..<length df}"
    unfolding i invalid_rows_def mapped_def
    using index_select_enumerate [of "map normalize_row df"] by simp
  have "length (clean_df b) + card (set (index (duplicates b)) \<union> set (index (invalids b)))
          = length df"
    unfolding c clean_rows_app_filter
    using length_filter_outside [of mapped "length df"
        "set (index (duplicates b)) \<union> set (index (invalids b))"] sd si
    by (simp add: index_enumerate mapped_def)
  then show ?thesis using b t cc by (auto simp: Un_commute)
qed

lemma clean_count_a:
  "clean_count (summary_a mapped de dm)
     + int (card (set (index (invalids (summary_a mapped de dm)))
                 \<union> set (index (duplicates (summary_a mapped de dm)))))
   = int (total (summary_a mapped de dm))"
  by (simp add: summary_a_def Let_def length_index_union)

text \<open>
  With the two results that \<open>duplicated(keep=False)\<close> returns, the expressions of \<open>a.py\<close>
  select the duplicate partition of the specification.
\<close>

lemma concat_if_filter:
  "concat (map (\<lambda>x. if P x then [f x] else []) xs) = map f (filter P xs)"
  by (induction xs) auto

lemma duplicated_KeepFalse_map:
  "duplicated KeepFalse (map f xs) = map (\<lambda>x. 2 \<le> count_list (map f xs) (f x)) xs"
  by (simp add: duplicated_def)

lemma duplicates_a_matches_spec:
  "index (duplicates_a mapped
      (duplicated KeepFalse (map (\<lambda>(i, r). Email_Normalized r) mapped))
      (duplicated KeepFalse (map (\<lambda>(i, r). Mobile_Normalized r) mapped)))
   = spec_duplicate_rows mapped"
proof -
  have "spec_duplicate_rows mapped =
     map fst (filter (\<lambda>(i, r).
        (Email_Normalized r \<noteq> []
           \<and> 2 \<le> count_list (map (\<lambda>(i, r). Email_Normalized r) mapped) (Email_Normalized r))
        \<or> (Mobile_Normalized r \<noteq> []
           \<and> 2 \<le> count_list (map (\<lambda>(i, r). Mobile_Normalized r) mapped) (Mobile_Normalized r)))
       mapped)"
    unfolding spec_duplicate_rows_def
    by (simp add: case_prod_unfold concat_if_filter)
  moreover have "duplicates_a mapped
      (duplicated KeepFalse (map (\<lambda>(i, r). Email_Normalized r) mapped))
      (duplicated KeepFalse (map (\<lambda>(i, r). Mobile_Normalized r) mapped))
    = filter (\<lambda>(i, r).
        (Email_Normalized r \<noteq> []
           \<and> 2 \<le> count_list (map (\<lambda>(i, r). Email_Normalized r) mapped) (Email_Normalized r))
        \<or> (Mobile_Normalized r \<noteq> []
           \<and> 2 \<le> count_list (map (\<lambda>(i, r). Mobile_Normalized r) mapped) (Mobile_Normalized r)))
       mapped"
    unfolding duplicates_a_def Let_def duplicated_KeepFalse_map map2_map_map select_map
    by (rule filter_cong) (auto simp: case_prod_unfold)
  ultimately show ?thesis by (simp add: index_def)
qed

text \<open>
  \<open>app.py\<close> has no test for the empty string: its duplicates are the rows whose normalized
  mobile or normalized e-mail occurs at least twice, empty or not.
\<close>

lemma duplicates_app_rows:
  "duplicates_app mapped =
     filter (\<lambda>(i, r).
         2 \<le> count_list (map (\<lambda>(i, r). Mobile_Normalized r) mapped) (Mobile_Normalized r)
         \<or> 2 \<le> count_list (map (\<lambda>(i, r). Email_Normalized r) mapped) (Email_Normalized r))
       mapped"
  unfolding duplicates_app_def Let_def duplicated_KeepFalse_map map2_map_map select_map
  by (rule filter_cong) (auto simp: case_prod_unfold)

lemma dup_email_expr_TypeError: "dup_email_expr col = Inl TypeError"
  by (simp add: dup_email_expr_def Series_hasattr_def call_duplicated_def)

text \<open>
  The three steps of \<open>a.py\<close> that call \<open>strip\<close> on a cell raise \<open>AttributeError\<close> at the
  first blank cell and nothing else; without a blank cell they return.
\<close>

lemma apply_col_Inr:
  "(\<And>x. x \<in> set xs \<Longrightarrow> \<exists>y. f x = Inr y) \<Longrightarrow> \<exists>ys. apply_col f xs = Inr ys"
proof (induction xs)
  case Nil
  then show ?case by simp
next
  case (Cons x xs)
  from Cons.prems obtain y where "f x = Inr y" by auto
  moreover from Cons obtain ys where "apply_col f xs = Inr ys" by auto
  ultimately show ?case by simp
qed

lemma apply_col_Inl:
  assumes "\<exists>x\<in>set xs. f x = Inl e"
    and "\<And>x e'. x \<in> set xs \<Longrightarrow> f x = Inl e' \<Longrightarrow> e' = e"
  shows "apply_col f xs = Inl e"
  using assms
proof (induction xs)
  case Nil
  then show ?case by simp
next
  case (Cons x xs)
  show ?case
  proof (cases "f x")
    case (Inl e')
    with Cons.prems(2) [of x e'] show ?thesis by simp
  next
    case (Inr y)
    with Cons.prems(1) have "\<exists>x\<in>set xs. f x = Inl e" by auto
    with Cons.IH Cons.prems(2) have "apply_col f xs = Inl e" by auto
    with Inr show ?thesis by simp
  qed
qed

lemma normalize_name_NaN: "normalize_name capitalize NaN = Inl AttributeError"
  by (simp add: normalize_name_def truthy_def)

lemma normalize_name_Str: "c \<noteq> NaN \<Longrightarrow> \<exists>y. normalize_name capitalize c = Inr y"
  by (cases c) (simp_all add: normalize_name_def)

lemma normalize_name_Inl: "normalize_name capitalize c = Inl e \<Longrightarrow> e = AttributeError"
  by (cases c) (auto simp: normalize_name_def split: if_splits)

lemma normalize_email_cell_NaN: "normalize_email_cell NaN = Inl AttributeError"
  by (simp add: normalize_email_cell_def truthy_def)

lemma normalize_email_cell_Str: "c \<noteq> NaN \<Longrightarrow> \<exists>y. normalize_email_cell c = Inr y"
  by (cases c) (auto simp: normalize_email_cell_def)

lemma normalize_email_cell_Inl: "normalize_email_cell c = Inl e \<Longrightarrow> e = AttributeError"
  by (cases c) (auto simp: normalize_email_cell_def split: if_splits)

lemma names_return:
  assumes "\<forall>r\<in>set rows. r k \<noteq> NaN"
  shows "\<exists>ys. apply_col (normalize_name capitalize) (map (\<lambda>r. r k) rows) = Inr ys"
proof (rule apply_col_Inr)
  fix x assume "x \<in> set (map (\<lambda>r. r k) rows)"
  then have "x \<noteq> NaN" using assms by auto
  then show "\<exists>y. normalize_name capitalize x = Inr y" by (rule normalize_name_Str)
qed

lemma names_raise:
  assumes "\<exists>r\<in>set rows. r k = NaN"
  shows "apply_col (normalize_name capitalize) (map (\<lambda>r. r k) rows) = Inl AttributeError"
proof (rule apply_col_Inl)
  from assms obtain r where r: "r \<in> set rows" and n: "r k = NaN" by blast
  from r have "(\<lambda>r. r k) r \<in> (\<lambda>r. r k) ` set rows" by (rule imageI)
  with n have "NaN \<in> set (map (\<lambda>r. r k) rows)" by simp
  then show "\<exists>x\<in>set (map (\<lambda>r. r k) rows). normalize_name capitalize x = Inl AttributeError"
    using normalize_name_NaN by blast
next
  fix x e' assume "normalize_name capitalize x = Inl e'"
  then show "e' = AttributeError" by (rule normalize_name_Inl)
qed

lemma emails_return:
  assumes "\<forall>r\<in>set rows. r k \<noteq> NaN"
  shows "\<exists>ys. apply_col normalize_email_cell (map (\<lambda>r. r k) rows) = Inr ys"
proof (rule apply_col_Inr)
  fix x assume "x \<in> set (map (\<lambda>r. r k) rows)"
  then have "x \<noteq> NaN" using assms by auto
  then show "\<exists>y. normalize_email_cell x = Inr y" by (rule normalize_email_cell_Str)
qed

lemma emails_raise:
  assumes "\<exists>r\<in>set rows. r k = NaN"
  shows "apply_col normalize_email_cell (map (\<lambda>r. r k) rows) = Inl AttributeError"
proof (rule apply_col_Inl)
  from assms obtain r where r: "r \<in> set rows" and n: "r k = NaN" by blast
  from r have "(\<lambda>r. r k) r \<in> (\<lambda>r. r k) ` set rows" by (rule imageI)
  with n have "NaN \<in> set (map (\<lambda>r. r k) rows)" by simp
  then show "\<exists>x\<in>set (map (\<lambda>r. r k) rows). normalize_email_cell x = Inl AttributeError"
    using normalize_email_cell_NaN by blast
next
  fix x e' assume "normalize_email_cell x = Inl e'"
  then show "e' = AttributeError" by (rule normalize_email_cell_Inl)
qed

lemma classify_a_TypeError:
  assumes "\<forall>r\<in>set rows. r ''First_Name'' \<noteq> NaN \<and> r ''Last_Name'' \<noteq> NaN \<and> r ''Email'' \<noteq> NaN"
  shows "classify_a capitalize rows = Inl TypeError"
proof -
  from assms have a: "\<forall>r\<in>set rows. r ''First_Name'' \<noteq> NaN"
    and b: "\<forall>r\<in>set rows. r ''Last_Name'' \<noteq> NaN" and c: "\<forall>r\<in>set rows. r ''Email'' \<noteq> NaN"
    by blast+
  from names_return [OF a] obtain first_names
    where f: "apply_col (normalize_name capitalize) (map (\<lambda>r. r ''First_Name'') rows)
      = Inr first_names"
    by blast
  from names_return [OF b] obtain last_names
    where l: "apply_col (normalize_name capitalize) (map (\<lambda>r. r ''Last_Name'') rows)
      = Inr last_names"
    by blast
  from emails_return [OF c] obtain em
    where e: "apply_col normalize_email_cell (map (\<lambda>r. r ''Email'') rows) = Inr em"
    by blast
  show ?thesis
    by (simp add: classify_a_def f l e Let_def dup_email_expr_TypeError)
qed

lemma classify_a_AttributeError:
  assumes "\<exists>r\<in>set rows. r ''First_Name'' = NaN \<or> r ''Last_Name'' = NaN \<or> r ''Email'' = NaN"
  shows "classify_a capitalize rows = Inl AttributeError"
proof (cases "\<exists>r\<in>set rows. r ''First_Name'' = NaN")
  case True
  then show ?thesis by (simp add: classify_a_def names_raise)
next
  case nf: False
  then have "\<forall>r\<in>set rows. r ''First_Name'' \<noteq> NaN" by blast
  from names_return [OF this] obtain first_names
    where f: "apply_col (normalize_name capitalize) (map (\<lambda>r. r ''First_Name'') rows)
      = Inr first_names"
    by blast
  show ?thesis
  proof (cases "\<exists>r\<in>set rows. r ''Last_Name'' = NaN")
    case True
    then show ?thesis by (simp add: classify_a_def f names_raise)
  next
    case nl: False
    then have "\<forall>r\<in>set rows. r ''Last_Name'' \<noteq> NaN" by blast
    from names_return [OF this] obtain last_names
      where l: "apply_col (normalize_name capitalize) (map (\<lambda>r. r ''Last_Name'') rows)
        = Inr last_names"
      by blast
    from assms nf nl have "\<exists>r\<in>set rows. r ''Email'' = NaN" by blast
    then show ?thesis by (simp add: classify_a_def f l emails_raise)
  qed
qed

lemma classify_a_never_Inr: "classify_a capitalize rows \<noteq> Inr b"
proof (cases "\<exists>r\<in>set rows. r ''First_Name'' = NaN \<or> r ''Last_Name'' = NaN \<or> r ''Email'' = NaN")
  case True
  then show ?thesis using classify_a_AttributeError [of rows capitalize] by simp
next
  case False
  then have "\<forall>r\<in>set rows. r ''First_Name'' \<noteq> NaN \<and> r ''Last_Name'' \<noteq> NaN \<and> r ''Email'' \<noteq> NaN"
    by blast
  then show ?thesis using classify_a_TypeError [of rows capitalize] by simp
qed

lemma str_cells_not_NaN: "str_cells r k \<noteq> NaN"
  by (simp add: str_cells_def split: option.splits)

lemma blank_email_table_has_NaN:
  "\<exists>r\<in>set blank_email_table. r ''First_Name'' = NaN \<or> r ''Last_Name'' = NaN \<or> r ''Email'' = NaN"
  by (simp add: blank_email_table_def empty_email_rows_def blank_in_def)

lemma write_row_append: "write_row_app opts root ir z = z @ write_row_app opts root ir []"
  by (simp add: write_row_app_def Let_def write_full_package_to_zip_def write_card_flat_def
        write_signature_flat_def writestr_def)

lemma fold_write_rows:
  "fold (write_row_app opts root) rows z
     = z @ concat (map (\<lambda>ir. write_row_app opts root ir []) rows)"
proof (induction rows arbitrary: z)
  case Nil
  then show ?case by simp
next
  case (Cons ir rows)
  have "fold (write_row_app opts root) (ir # rows) z
      = write_row_app opts root ir z @ concat (map (\<lambda>ir. write_row_app opts root ir []) rows)"
    using Cons.IH by simp
  then show ?case
    using write_row_append [of opts root ir z] by simp
qed

lemma generate_app_Some:
  assumes "generate_app opts pfx now b = Some z"
  shows "z = (safe_root_app pfx @ ''/Batch_Summary.txt'',
              summary_report (total b) (clean_count b) (invalid_count b) (duplicate_count b) now)
             # concat (map (\<lambda>ir. write_row_app opts (safe_root_app pfx) ir []) (clean_df b))"
  using assms
  by (auto simp: generate_app_def Let_def fold_write_rows writestr_def split: if_splits)


lemma index_clean_rows_app:
  "set (index (clean_rows_app mapped dups invs))
     = set (index mapped) - (set (index dups) \<union> set (index invs))"
  unfolding clean_rows_app_filter index_def by force

lemma scenario_counts:
  "case classify_app scenario_rows of
     Inl e \<Rightarrow> False
   | Inr b \<Rightarrow> total b = 3 \<and> clean_count b = 0 \<and> invalid_count b = 1 \<and> duplicate_count b = 2
        \<and> index (duplicates b) = [0, 1] \<and> index (invalids b) = [2] \<and> clean_df b = []"
  by code_simp

lemma generate_app_None: "clean_count b = 0 \<Longrightarrow> generate_app opts pfx now b = None"
  by (simp add: generate_app_def)

text \<open>
  Claim C4, as amended. In \<open>a.py\<close> the guard \<open>hasattr(series, 'duplicated')\<close> is true, so the
  expression for \<open>dup_email\<close> is the call with the keyword \<open>Keep\<close>, and it raises
  \<open>TypeError\<close> whenever it is evaluated. The handler reaches it, and raises \<open>TypeError\<close>,
  for every batch whose first-name, last-name and e-mail cells are all strings; for a
  batch with a blank cell in one of these columns it raises \<open>AttributeError\<close> before, in
  \<open>normalize_name\<close> or \<open>normalize_email\<close>. In no case does it get to a count or an archive.
\<close>

theorem dup_email_raises_TypeError:
  "Series_hasattr ''duplicated''
   \<and> dup_email_expr col = call_duplicated ''Keep'' KeepFalse col
   \<and> dup_email_expr col = Inl TypeError
   \<and> ((\<forall>r\<in>set rows. r ''First_Name'' \<noteq> NaN \<and> r ''Last_Name'' \<noteq> NaN \<and> r ''Email'' \<noteq> NaN)
        \<longrightarrow> classify_a capitalize rows = Inl TypeError)
   \<and> ((\<exists>r\<in>set rows. r ''First_Name'' = NaN \<or> r ''Last_Name'' = NaN \<or> r ''Email'' = NaN)
        \<longrightarrow> classify_a capitalize rows = Inl AttributeError)
   \<and> (\<forall>b. classify_a capitalize rows \<noteq> Inr b)"
  using dup_email_expr_TypeError [of col] classify_a_TypeError [of rows capitalize]
    classify_a_AttributeError [of rows capitalize] classify_a_never_Inr [of capitalize rows]
  by (simp add: dup_email_expr_def Series_hasattr_def)

theorem dup_email_raises_TypeError_witness:
  "list_all (\<lambda>r. r ''First_Name'' \<noteq> NaN \<and> r ''Last_Name'' \<noteq> NaN \<and> r ''Email'' \<noteq> NaN)
     (map str_cells scenario_rows)
   \<and> classify_a capitalize_ascii (map str_cells scenario_rows) = Inl TypeError
   \<and> list_ex (\<lambda>r. r ''First_Name'' = NaN \<or> r ''Last_Name'' = NaN \<or> r ''Email'' = NaN)
       blank_email_table
   \<and> classify_a capitalize_ascii blank_email_table = Inl AttributeError"
proof -
  have h1: "\<forall>r\<in>set (map str_cells scenario_rows).
       r ''First_Name'' \<noteq> NaN \<and> r ''Last_Name'' \<noteq> NaN \<and> r ''Email'' \<noteq> NaN"
    by (simp add: str_cells_not_NaN)
  note h2 = blank_email_table_has_NaN
  from dup_email_raises_TypeError [of "[]" "map str_cells scenario_rows" capitalize_ascii] h1
  have c1: "classify_a capitalize_ascii (map str_cells scenario_rows) = Inl TypeError"
    by blast
  from dup_email_raises_TypeError [of "[]" blank_email_table capitalize_ascii] h2
  have c2: "classify_a capitalize_ascii blank_email_table = Inl AttributeError"
    by blast
  from h1 have l1: "list_all
      (\<lambda>r. r ''First_Name'' \<noteq> NaN \<and> r ''Last_Name'' \<noteq> NaN \<and> r ''Email'' \<noteq> NaN)
      (map str_cells scenario_rows)"
    unfolding list_all_iff .
  from h2 have l2: "list_ex
      (\<lambda>r. r ''First_Name'' = NaN \<or> r ''Last_Name'' = NaN \<or> r ''Email'' = NaN)
      blank_email_table"
    unfolding list_ex_iff .
  from l1 c1 l2 c2 show ?thesis by (intro conjI)
qed

text \<open>
  Claim C4 as stated fails: for the table of two rows with blank e-mail cells the handler
  raises \<open>AttributeError\<close> in \<open>normalize_email\<close>; the expression for \<open>dup_email\<close> is not
  evaluated and no \<open>TypeError\<close> is raised.
\<close>

theorem blank_email_cell_raises_AttributeError:
  "apply_col normalize_email_cell (map (\<lambda>r. r ''Email'') blank_email_table) = Inl AttributeError
   \<and> classify_a capitalize_ascii blank_email_table = Inl AttributeError
   \<and> classify_a capitalize_ascii blank_email_table \<noteq> Inl TypeError"
proof -
  have "apply_col normalize_email_cell (map (\<lambda>r. r ''Email'') blank_email_table)
      = Inl AttributeError"
    by (simp add: blank_email_table_def empty_email_rows_def blank_in_def
          normalize_email_cell_NaN)
  moreover have "classify_a capitalize_ascii blank_email_table = Inl AttributeError"
    using blank_email_table_has_NaN by (rule classify_a_AttributeError)
  ultimately show ?thesis by simp
qed

text \<open>
  Claim C3. Two rows with no e-mail and different valid mobiles collide only on the empty
  normalized e-mail: the specification's duplicate partition of this batch is empty,
  \<open>app.py\<close> puts both rows in \<open>duplicates\<close>, and \<open>a.py\<close> raises \<open>TypeError\<close> when the e-mail
  cells are empty strings and \<open>AttributeError\<close> when they are blank.
\<close>

theorem empty_email_collision_is_duplicate:
  "spec_duplicate_rows (enumerate 0 (map normalize_row empty_email_rows)) = []
   \<and> (case classify_app empty_email_rows of
         Inl e \<Rightarrow> False
       | Inr b \<Rightarrow> index (duplicates b) = [0, 1] \<and> duplicate_count b = 2)
   \<and> classify_a capitalize (map str_cells empty_email_rows) = Inl TypeError
   \<and> classify_a capitalize blank_email_table = Inl AttributeError"
proof (intro conjI)
  show "spec_duplicate_rows (enumerate 0 (map normalize_row empty_email_rows)) = []"
    by code_simp
  show "case classify_app empty_email_rows of
         Inl e \<Rightarrow> False
       | Inr b \<Rightarrow> index (duplicates b) = [0, 1] \<and> duplicate_count b = 2"
    by code_simp
  show "classify_a capitalize (map str_cells empty_email_rows) = Inl TypeError"
    by (rule classify_a_TypeError) (simp add: str_cells_not_NaN)
  show "classify_a capitalize blank_email_table = Inl AttributeError"
    using blank_email_table_has_NaN by (rule classify_a_AttributeError)
qed

text \<open>
  Claim C5. In \<open>app.py\<close> every batch with at least one row is classified, and the number
  of clean rows plus the size of the union of the invalid and duplicate index sets is the
  number of rows; the clean rows are the rows outside that union. In \<open>a.py\<close> the count
  \<open>total - len(invalids.index.union(duplicates.index))\<close> satisfies the same equation.
\<close>

theorem clean_plus_excluded_is_total:
  "(df \<noteq> [] \<longrightarrow>
      (\<exists>b. classify_app df = Inr b \<and> total b = length df
         \<and> clean_count b = int (length (clean_df b))
         \<and> clean_count b + int (card (set (index (invalids b)) \<union> set (index (duplicates b))))
             = int (total b)
         \<and> set (index (clean_df b))
             = {0..<length df} - (set (index (invalids b)) \<union> set (index (duplicates b)))))
   \<and> clean_count (summary_a mapped de dm)
       + int (card (set (index (invalids (summary_a mapped de dm)))
                   \<union> set (index (duplicates (summary_a mapped de dm)))))
     = int (total (summary_a mapped de dm))"
proof (intro conjI impI)
  assume ne: "df \<noteq> []"
  from classify_app_Inr [OF ne] obtain b where b: "classify_app df = Inr b"
    and c: "clean_df b
       = clean_rows_app (enumerate 0 (map normalize_row df)) (duplicates b) (invalids b)"
    and cc: "clean_count b = int (length (clean_df b))"
    by blast
  from clean_count_app [OF ne] b have t: "total b = length df"
    and e: "clean_count b + int (card (set (index (invalids b)) \<union> set (index (duplicates b))))
             = int (total b)"
    by auto
  have "set (index (clean_df b))
       = {0..<length df} - (set (index (invalids b)) \<union> set (index (duplicates b)))"
    unfolding c index_clean_rows_app by (auto simp: index_enumerate)
  with b t e cc
  show "\<exists>b. classify_app df = Inr b \<and> total b = length df
         \<and> clean_count b = int (length (clean_df b))
         \<and> clean_count b + int (card (set (index (invalids b)) \<union> set (index (duplicates b))))
             = int (total b)
         \<and> set (index (clean_df b))
             = {0..<length df} - (set (index (invalids b)) \<union> set (index (duplicates b)))"
    by blast
next
  show "clean_count (summary_a mapped de dm)
       + int (card (set (index (invalids (summary_a mapped de dm)))
                   \<union> set (index (duplicates (summary_a mapped de dm)))))
     = int (total (summary_a mapped de dm))"
    by (rule clean_count_a)
qed

theorem clean_plus_excluded_is_total_witness:
  "scenario_rows \<noteq> []
   \<and> (case classify_app scenario_rows of
         Inl e \<Rightarrow> False
       | Inr b \<Rightarrow> total b = 3
           \<and> clean_count b + int (card (set (index (invalids b)) \<union> set (index (duplicates b))))
               = 3)"
proof -
  have ne: "scenario_rows \<noteq> []" by (simp add: scenario_rows_def)
  have len: "length scenario_rows = 3" by (simp add: scenario_rows_def)
  from clean_plus_excluded_is_total [of scenario_rows] ne
  obtain b where "classify_app scenario_rows = Inr b" and "total b = length scenario_rows"
    and "clean_count b + int (card (set (index (invalids b)) \<union> set (index (duplicates b))))
             = int (total b)"
    by blast
  then show ?thesis using ne len by simp
qed


section \<open>Properties of the archive builder\<close>

text \<open>
  Claim C6, as amended. \<open>app.py\<close> builds the archive from the clean partition only: an
  archive is the summary followed by the entries written for the rows of \<open>clean_df\<close>, in
  order, and these are the rows that are neither invalid nor duplicate; with no clean row
  no archive is built. For the batch of row A (valid), row B (the e-mail of A) and row C
  (invalid mobile) the counts are total 3, clean 0, invalid 1, duplicate 2, since A and B
  are both duplicates, and no archive is built.
\<close>

theorem clean_only_archive:
  "(generate_app opts pfx now b = Some z \<longrightarrow>
      z = (safe_root_app pfx @ ''/Batch_Summary.txt'',
           summary_report (total b) (clean_count b) (invalid_count b) (duplicate_count b) now)
          # concat (map (\<lambda>ir. write_row_app opts (safe_root_app pfx) ir []) (clean_df b)))
   \<and> (clean_count b = 0 \<longrightarrow> generate_app opts pfx now b = None)
   \<and> (df \<noteq> [] \<longrightarrow>
        (\<exists>c. classify_app df = Inr c
           \<and> clean_df c = filter (\<lambda>(i, r). i \<notin> set (index (duplicates c)) \<union> set (index (invalids c)))
                            (enumerate 0 (map normalize_row df))))
   \<and> (case classify_app scenario_rows of
         Inl e \<Rightarrow> False
       | Inr s \<Rightarrow> total s = 3 \<and> clean_count s = 0 \<and> invalid_count s = 1
           \<and> duplicate_count s = 2 \<and> generate_app opts pfx now s = None)"
proof (intro conjI impI)
  assume "generate_app opts pfx now b = Some z"
  then show "z = (safe_root_app pfx @ ''/Batch_Summary.txt'',
           summary_report (total b) (clean_count b) (invalid_count b) (duplicate_count b) now)
          # concat (map (\<lambda>ir. write_row_app opts (safe_root_app pfx) ir []) (clean_df b))"
    by (rule generate_app_Some)
next
  assume "clean_count b = 0"
  then show "generate_app opts pfx now b = None" by (rule generate_app_None)
next
  assume "df \<noteq> []"
  from classify_app_Inr [OF this]
  show "\<exists>c. classify_app df = Inr c
           \<and> clean_df c = filter (\<lambda>(i, r). i \<notin> set (index (duplicates c)) \<union> set (index (invalids c)))
                            (enumerate 0 (map normalize_row df))"
    by (auto simp: clean_rows_app_filter)
next
  show "case classify_app scenario_rows of
         Inl e \<Rightarrow> False
       | Inr s \<Rightarrow> total s = 3 \<and> clean_count s = 0 \<and> invalid_count s = 1
           \<and> duplicate_count s = 2 \<and> generate_app opts pfx now s = None"
    using scenario_counts by (auto split: sum.splits simp: generate_app_None)
qed

lemma single_row_batch:
  "case classify_app single_row of
     Inl e \<Rightarrow> False
   | Inr b \<Rightarrow> total b = 1 \<and> clean_count b = 1 \<and> invalid_count b = 0 \<and> duplicate_count b = 0
        \<and> clean_df b = [(0, normalize_row (employee ''A'' ''a@x.com'' ''0512345678''))]"
  by code_simp

lemma single_row_paths:
  "map fst (write_row_app [''Business Cards Only''] (safe_root_app ''Q1 Hires'')
       (0, normalize_row (employee ''A'' ''a@x.com'' ''0512345678'')) [])
     = [''Q1_Hires/A_Test/BusinessCards_Flat/A_Test.pdf'']"
  by code_simp

theorem clean_only_archive_witness:
  "single_row \<noteq> []
   \<and> (case classify_app single_row of
         Inl e \<Rightarrow> False
       | Inr b \<Rightarrow> clean_count b = 1
           \<and> (case generate_app [''Business Cards Only''] ''Q1 Hires'' ''2024-01-01 09:00:00'' b of
                None \<Rightarrow> False
              | Some z \<Rightarrow> map fst z = [''Q1_Hires/Batch_Summary.txt'',
                                         ''Q1_Hires/A_Test/BusinessCards_Flat/A_Test.pdf'']))"
proof -
  have ne: "single_row \<noteq> []" by (simp add: single_row_def)
  from single_row_batch obtain b where b: "classify_app single_row = Inr b"
    and cc: "clean_count b = 1"
    and cl: "clean_df b = [(0, normalize_row (employee ''A'' ''a@x.com'' ''0512345678''))]"
    by (auto split: sum.splits)
  from cc obtain z
    where z: "generate_app [''Business Cards Only''] ''Q1 Hires'' ''2024-01-01 09:00:00'' b = Some z"
    by (auto simp: generate_app_def Let_def)
  have sr: "safe_root_app ''Q1 Hires'' = ''Q1_Hires''" by code_simp
  from clean_only_archive [of "[''Business Cards Only'']" "''Q1 Hires''"
      "''2024-01-01 09:00:00''" b z single_row] z
  have "z = (safe_root_app ''Q1 Hires'' @ ''/Batch_Summary.txt'',
           summary_report (total b) (clean_count b) (invalid_count b) (duplicate_count b)
             ''2024-01-01 09:00:00'')
          # concat (map (\<lambda>ir. write_row_app [''Business Cards Only'']
                (safe_root_app ''Q1 Hires'') ir []) (clean_df b))"
    by blast
  then have "map fst z = [''Q1_Hires/Batch_Summary.txt'',
                          ''Q1_Hires/A_Test/BusinessCards_Flat/A_Test.pdf'']"
    unfolding cl using single_row_paths by (simp add: sr)
  then show ?thesis using ne b cc z by simp
qed

text \<open>
  Claim C6 as stated fails: in the scenario the summary has clean = 0, not 1, row A is in
  the duplicate partition, and no artifact is generated for it.
\<close>

theorem scenario_row_A_not_clean:
  "case classify_app scenario_rows of
     Inl e \<Rightarrow> False
   | Inr b \<Rightarrow> total b = 3 \<and> clean_count b = 0 \<and> invalid_count b = 1 \<and> duplicate_count b = 2
        \<and> index (duplicates b) = [0, 1] \<and> clean_df b = []
        \<and> generate_app [''Full Package (All Files)''] ''Batch_Outputs'' ''2024-01-01 09:00:00'' b
            = None"
  using scenario_counts
  by (auto split: sum.splits simp: generate_app_None)


end
